theory Spec2Isabelle
  imports Main "HOL-Library.Word"
begin

section \<open>minijail0: the command-line front-end of the jail launcher\<close>

text \<open>
  A shallow embedding of \<^verbatim>\<open>minijail0.c\<close>. The jail object \<^verbatim>\<open>struct minijail *j\<close> is
  opaque to this file: every function of libminijail it calls is a collaborator, so the
  jail is modelled by the ordered list of calls made on it. Return codes of collaborators
  come from an environment record. \<^verbatim>\<open>exit(1)\<close> is an error value.
  Memory allocation (\<^verbatim>\<open>malloc\<close>, \<^verbatim>\<open>strdup\<close>, \<^verbatim>\<open>strndup\<close>) is taken to succeed, and a
  collaborator returning \<^verbatim>\<open>void\<close> is taken to return.
\<close>

subsection \<open>The C library's number conversions\<close>

definition isspace :: "char \<Rightarrow> bool" where
  "isspace c = (let n = (of_char c :: nat) in n = 32 \<or> (9 \<le> n \<and> n \<le> 13))"

definition isdigit :: "char \<Rightarrow> bool" where
  "isdigit c = (let n = (of_char c :: nat) in 48 \<le> n \<and> n \<le> 57)"

definition isalpha :: "char \<Rightarrow> bool" where
  "isalpha c = (let n = (of_char c :: nat) in (65 \<le> n \<and> n \<le> 90) \<or> (97 \<le> n \<and> n \<le> 122))"

text \<open>An upper-case letter becomes lower-case by setting bit 5 of its code.\<close>

fun tolower :: "char \<Rightarrow> char" where
  "tolower (Char b0 b1 b2 b3 b4 b5 b6 b7) =
     (let n = (of_char (Char b0 b1 b2 b3 b4 b5 b6 b7) :: nat)
      in if 65 \<le> n \<and> n \<le> 90 then Char b0 b1 b2 b3 b4 True b6 b7
         else Char b0 b1 b2 b3 b4 b5 b6 b7)"

text \<open>The value of a character as a digit: 0-9, then letters (either case) from 10.\<close>

definition digit_val :: "char \<Rightarrow> nat" where
  "digit_val c = (let n = (of_char c :: nat) in
     if 48 \<le> n \<and> n \<le> 57 then n - 48
     else if 97 \<le> n \<and> n \<le> 122 then n - 87
     else if 65 \<le> n \<and> n \<le> 90 then n - 55
     else 36)"

definition is_digit_of :: "nat \<Rightarrow> char \<Rightarrow> bool" where
  "is_digit_of base c = (digit_val c < base)"

definition digits_val :: "nat \<Rightarrow> string \<Rightarrow> nat" where
  "digits_val base ds = foldl (\<lambda>a c. a * base + digit_val c) 0 ds"

text \<open>An optional sign: whether it is a minus, and the rest.\<close>

fun take_sign :: "string \<Rightarrow> bool \<times> string" where
  "take_sign [] = (False, [])"
| "take_sign (c # cs) =
     (if c = CHR ''-'' then (True, cs) else if c = CHR ''+'' then (False, cs) else (False, c # cs))"

text \<open>The optional \<^verbatim>\<open>0x\<close> prefix of base 16, taken only when a hexadecimal digit follows.\<close>

fun take_hex_prefix :: "string \<Rightarrow> string" where
  "take_hex_prefix (z # x # d # cs) =
     (if z = CHR ''0'' \<and> (x = CHR ''x'' \<or> x = CHR ''X'') \<and> is_digit_of 16 d
      then d # cs else z # x # d # cs)"
| "take_hex_prefix cs = cs"

text \<open>
  The common part of \<^verbatim>\<open>strtol\<close>, \<^verbatim>\<open>strtoul\<close> and \<^verbatim>\<open>strtoull\<close> for base 10 and 16:
  white space, sign, prefix, digits. \<open>None\<close> is "no conversion"; otherwise the sign, the
  magnitude and the unparsed rest.
\<close>

definition strto_scan :: "nat \<Rightarrow> string \<Rightarrow> (bool \<times> nat \<times> string) option" where
  "strto_scan base s =
     (let (neg, s1) = take_sign (dropWhile isspace s);
          s2 = (if base = 16 then take_hex_prefix s1 else s1);
          ds = takeWhile (is_digit_of base) s2
      in if ds = [] then None
         else Some (neg, digits_val base ds, dropWhile (is_digit_of base) s2))"

text \<open>
  \<^verbatim>\<open>strtoull(s, &end, base)\<close>: the value and \<^verbatim>\<open>end\<close>. With no conversion the value is
  0 and \<^verbatim>\<open>end\<close> is \<^verbatim>\<open>s\<close>; a magnitude out of range gives \<^verbatim>\<open>ULLONG_MAX\<close>; a minus sign
  negates in the unsigned type.
\<close>

definition strtoull :: "string \<Rightarrow> nat \<Rightarrow> 64 word \<times> string" where
  "strtoull s base =
     (case strto_scan base s of
        None \<Rightarrow> (0, s)
      | Some (neg, n, rest) \<Rightarrow>
          (if n \<ge> 2 ^ 64 then (- 1, rest)
           else if neg then (- (of_nat n), rest)
           else (of_nat n, rest)))"

text \<open>\<^verbatim>\<open>strtoul\<close> with a null \<^verbatim>\<open>endptr\<close>, \<^verbatim>\<open>unsigned long\<close> being 64 bits wide (LP64).\<close>

definition strtoul :: "string \<Rightarrow> nat \<Rightarrow> 64 word" where
  "strtoul s base = fst (strtoull s base)"

text \<open>
  \<^verbatim>\<open>atoi(s)\<close> is \<^verbatim>\<open>(int) strtol(s, NULL, 10)\<close>: \<^verbatim>\<open>strtol\<close> clamps to the range of
  \<^verbatim>\<open>long\<close> (64 bits) and the cast keeps the low 32 bits.
\<close>

definition strtol :: "string \<Rightarrow> nat \<Rightarrow> int" where
  "strtol s base =
     (case strto_scan base s of
        None \<Rightarrow> 0
      | Some (neg, n, rest) \<Rightarrow>
          (if neg then (if n > 2 ^ 63 then - (2 ^ 63) else - int n)
           else (if n \<ge> 2 ^ 63 then 2 ^ 63 - 1 else int n)))"

definition atoi :: "string \<Rightarrow> int" where
  "atoi s = sint (word_of_int (strtol s 10) :: 32 word)"

subsection \<open>\<^verbatim>\<open>strtod\<close>\<close>

text \<open>
  A \<^verbatim>\<open>double\<close> is a sign, a significand \<open>m\<close> and an exponent \<open>k\<close>, for the value
  \<open>m \<cdot> 2^k\<close>, or an infinity, or a NaN.
\<close>

datatype double = Dbl bool nat int | Dbl_inf bool | Dbl_nan

fun bitlen :: "nat \<Rightarrow> nat" where
  "bitlen n = (if n = 0 then 0 else Suc (bitlen (n div 2)))"

declare bitlen.simps [simp del]

definition round_half_even :: "nat \<Rightarrow> nat \<Rightarrow> nat" where
  "round_half_even a b =
     (let q = a div b; r = a mod b
      in if 2 * r < b then q else if b < 2 * r then q + 1 else if even q then q else q + 1)"

text \<open>
  The binary64 number nearest to \<open>a / b\<close> (ties to even): \<open>e\<close> is the exponent of the
  leading bit, the significand has 53 bits, the least exponent is \<open>-1074\<close>, and a result
  of \<open>2^1024\<close> or more is infinite.
\<close>

definition to_double :: "bool \<Rightarrow> nat \<Rightarrow> nat \<Rightarrow> double" where
  "to_double neg a b =
     (if a = 0 then Dbl neg 0 0
      else
        let d = int (bitlen a) - int (bitlen b);
            e = (if (if 0 \<le> d then b * 2 ^ nat d \<le> a else b \<le> a * 2 ^ nat (- d)) then d else d - 1);
            k = max (e - 52) (- 1074);
            m = (if 0 \<le> k then round_half_even a (b * 2 ^ nat k)
                 else round_half_even (a * 2 ^ nat (- k)) b)
        in if 0 \<le> k then (if 2 ^ 1024 \<le> m * 2 ^ nat k then Dbl_inf neg else Dbl neg m k)
           else Dbl neg m k)"

text \<open>Digits with an optional radix point, at least one digit in all.\<close>

definition scan_mantissa :: "nat \<Rightarrow> string \<Rightarrow> (string \<times> string \<times> string) option" where
  "scan_mantissa base s =
     (let ip = takeWhile (is_digit_of base) s; r1 = dropWhile (is_digit_of base) s
      in case r1 of
           [] \<Rightarrow> if ip = [] then None else Some (ip, [], [])
         | c # r2 \<Rightarrow>
             if c = CHR ''.'' then
               (let fp = takeWhile (is_digit_of base) r2; r3 = dropWhile (is_digit_of base) r2
                in if ip = [] \<and> fp = [] then None else Some (ip, fp, r3))
             else if ip = [] then None else Some (ip, [], r1))"

text \<open>An optional exponent part: the marker, an optional sign, at least one decimal digit.\<close>

definition scan_exponent :: "char \<Rightarrow> string \<Rightarrow> int \<times> string" where
  "scan_exponent mark s =
     (case s of
        [] \<Rightarrow> (0, s)
      | c # r \<Rightarrow>
          if tolower c = mark then
            (let (neg, r1) = take_sign r; ds = takeWhile isdigit r1
             in if ds = [] then (0, s)
                else ((if neg then - int (digits_val 10 ds) else int (digits_val 10 ds)),
                      dropWhile isdigit r1))
          else (0, s))"

definition has_prefix_ci :: "string \<Rightarrow> string \<Rightarrow> bool" where
  "has_prefix_ci p s = (length p \<le> length s \<and> map tolower (take (length p) s) = p)"

definition scan_decimal :: "bool \<Rightarrow> string \<Rightarrow> (double \<times> string) option" where
  "scan_decimal neg s =
     (case scan_mantissa 10 s of
        None \<Rightarrow> None
      | Some (ip, fp, r) \<Rightarrow>
          (let (x, r') = scan_exponent (CHR ''e'') r;
               E = x - int (length fp);
               M = digits_val 10 (ip @ fp)
           in Some (to_double neg (M * 10 ^ nat E) (10 ^ nat (- E)), r')))"

definition scan_hex :: "bool \<Rightarrow> string \<Rightarrow> (double \<times> string) option" where
  "scan_hex neg s =
     (if has_prefix_ci ''0x'' s then
        (case scan_mantissa 16 (drop 2 s) of
           None \<Rightarrow> None
         | Some (ip, fp, r) \<Rightarrow>
             (let (x, r') = scan_exponent (CHR ''p'') r;
                  E = x - 4 * int (length fp);
                  M = digits_val 16 (ip @ fp)
              in Some (to_double neg (M * 2 ^ nat E) (2 ^ nat (- E)), r')))
      else None)"

definition scan_inf :: "bool \<Rightarrow> string \<Rightarrow> (double \<times> string) option" where
  "scan_inf neg s =
     (if has_prefix_ci ''infinity'' s then Some (Dbl_inf neg, drop 8 s)
      else if has_prefix_ci ''inf'' s then Some (Dbl_inf neg, drop 3 s)
      else None)"

definition scan_nan :: "string \<Rightarrow> (double \<times> string) option" where
  "scan_nan s =
     (if has_prefix_ci ''nan'' s then
        (case drop 3 s of
           c # r \<Rightarrow>
             (let is_nchar = (\<lambda>c. isdigit c \<or> isalpha c \<or> c = CHR ''_'')
              in if c = CHR ''('' then
                   (case dropWhile is_nchar r of
                      c' # r' \<Rightarrow> if c' = CHR '')'' then Some (Dbl_nan, r') else Some (Dbl_nan, c # r)
                    | [] \<Rightarrow> Some (Dbl_nan, c # r))
                 else Some (Dbl_nan, c # r))
         | [] \<Rightarrow> Some (Dbl_nan, []))
      else None)"

text \<open>
  \<^verbatim>\<open>strtod(s, &end)\<close> in the C locale: white space, an optional sign, then a hexadecimal
  or decimal floating constant, an infinity or a NaN. With no conversion the value is
  zero and \<^verbatim>\<open>end\<close> is \<^verbatim>\<open>s\<close>.
\<close>

definition strtod :: "string \<Rightarrow> double \<times> string" where
  "strtod s =
     (let (neg, s1) = take_sign (dropWhile isspace s)
      in case scan_hex neg s1 of
           Some r \<Rightarrow> r
         | None \<Rightarrow>
             (case scan_decimal neg s1 of
                Some r \<Rightarrow> r
              | None \<Rightarrow>
                  (case scan_inf neg s1 of
                     Some r \<Rightarrow> r
                   | None \<Rightarrow>
                       (case scan_nan s1 of
                          Some r \<Rightarrow> r
                        | None \<Rightarrow> (Dbl False 0 0, s)))))"

text \<open>The integral part of a finite \<^verbatim>\<open>double\<close>, towards zero.\<close>

definition trunc_double :: "double \<Rightarrow> int option" where
  "trunc_double d =
     (case d of
        Dbl neg m k \<Rightarrow>
          (let t = (if 0 \<le> k then int m * 2 ^ nat k else int (m div 2 ^ nat (- k)))
           in Some (if neg then - t else t))
      | Dbl_inf neg \<Rightarrow> None
      | Dbl_nan \<Rightarrow> None)"

text \<open>
  The conversion of a \<^verbatim>\<open>double\<close> to \<^verbatim>\<open>int\<close> discards the fraction. When the
  integral part is not a 32-bit \<^verbatim>\<open>int\<close> (also for an infinity or a NaN) the C standard
  leaves the result open; the source does not test for it and the program goes on. The
  value is the one of the program as built for x86-64, whose conversion instruction
  (\<^verbatim>\<open>cvttsd2si\<close>) then gives \<^verbatim>\<open>INT_MIN\<close>.
\<close>

definition double_to_int :: "double \<Rightarrow> int" where
  "double_to_int d =
     (case trunc_double d of
        Some v \<Rightarrow> if - (2 ^ 31) \<le> v \<and> v < 2 ^ 31 then v else - (2 ^ 31)
      | None \<Rightarrow> - (2 ^ 31))"

subsection \<open>Collaborators, errors and the environment\<close>

type_synonym uid_t = "32 word"
type_synonym gid_t = "32 word"

text \<open>\<^verbatim>\<open>ElfType\<close> of \<^verbatim>\<open>elfparse.h\<close>.\<close>

datatype ElfType = ELFERROR | ELFSTATIC | ELFDYNAMIC

text \<open>
  The calls this file makes on its collaborators, with their arguments: the functions
  of libminijail on the jail \<^verbatim>\<open>j\<close>, the identity lookups of \<^verbatim>\<open>system.h\<close> and the
  logging set-up of \<^verbatim>\<open>util.h\<close>.
\<close>

datatype call =
    Change_uid uid_t
  | Change_user string
  | Change_gid gid_t
  | Change_group string
  | Lookup_user string
  | Lookup_group string
  | No_new_privs
  | Use_seccomp
  | Use_seccomp_filter
  | Namespace_ipc
  | Log_seccomp_filter_failures
  | Bind string string int
  | Skip_setting_securebits "64 word"
  | Use_caps "64 word"
  | Enter_chroot string
  | Mount_with_data string string string "64 word" "string option"
  | Skip_remount_private
  | Enter_pivot_root string
  | Namespace_vfs
  | Write_pid_file string
  | Mount_tmp_size nat
  | Namespace_enter_vfs string
  | Remount_proc_readonly
  | Inherit_usergroups
  | Keep_supplementary_gids
  | Namespace_cgroups
  | Namespace_pids
  | Namespace_enter_net string
  | Namespace_net
  | Run_as_init
  | Namespace_user
  | Namespace_user_disable_setgroups
  | Uidmap string
  | Gidmap string
  | Use_alt_syscall string
  | Rlimit int int int
  | New_session_keyring
  | Set_seccomp_filter_tsync
  | Mount_dev
  | Set_ambient_caps
  | Namespace_uts
  | Namespace_set_hostname string
  | Init_logging_stderr
  | Preserve_fd int int
  | Forward_signals
  | Parse_seccomp_filters "string option"
  | Run_no_preload string "string list"
  | Run string "string list"

text \<open>
  Every \<^verbatim>\<open>exit\<close> and every failing \<^verbatim>\<open>return\<close> of the file, one constructor for each
  message.
\<close>

datatype error =
    Bad_user string
  | Bad_group string
  | Invalid_securebit_mask string
  | Invalid_cap_set string
  | Bad_binding
  | Bind_failed
  | Bad_rlimit
  | Rlimit_failed
  | Bad_mount
  | Mount_failed
  | Could_not_build_idmap
  | Could_not_get_capabilities
  | Could_not_get_cap_value
  | Could_not_free_capabilities
  | Could_not_set_uidmap
  | Could_not_set_gidmap
  | Seccomp_s_and_S_together
  | Filter_path_too_long
  | Chroot_after_pivot_root
  | Could_not_set_chroot
  | Pivot_root_after_chroot
  | Could_not_set_pivot_root
  | Could_not_prepare_pid_file
  | Invalid_tmpfs_size
  | Suppl_gids_not_compatible
  | Seccomp_filter_usage
  | Could_not_set_alt_syscall
  | Bad_elf_type
  | Bad_logger
  | Usage int
  | Could_not_preserve_stderr
  | Ambient_without_caps
  | Bind_without_root_or_mount_ns
  | Skip_remount_without_mount_ns
  | Not_accessible string
  | Static_caps_without_ambient
  | Setpgid_failed
  | Dlopen_failed
  | Not_valid_elf string

text \<open>The errors that report an illegal combination of options.\<close>

fun constraint_violation :: "error \<Rightarrow> bool" where
  "constraint_violation Seccomp_s_and_S_together = True"
| "constraint_violation Chroot_after_pivot_root = True"
| "constraint_violation Pivot_root_after_chroot = True"
| "constraint_violation Suppl_gids_not_compatible = True"
| "constraint_violation Ambient_without_caps = True"
| "constraint_violation Bind_without_root_or_mount_ns = True"
| "constraint_violation Skip_remount_without_mount_ns = True"
| "constraint_violation Static_caps_without_ambient = True"
| "constraint_violation _ = False"

datatype setpgid_result = Setpgid_ok | Setpgid_eperm | Setpgid_error

text \<open>
  What the collaborators and the operating system answer. \<open>jail_rc\<close> is the return
  code of a libminijail call that returns \<^verbatim>\<open>int\<close>, given the calls made before it.
\<close>

record env =
  jail_rc :: "call list \<Rightarrow> call \<Rightarrow> int"
  lookup_user :: "string \<Rightarrow> (uid_t \<times> gid_t) option"
  lookup_group :: "string \<Rightarrow> gid_t option"
  getuid :: uid_t
  getgid :: gid_t
  cap_setgid_supported :: bool
  cap_get_proc :: bool
  cap_get_flag :: "bool option"
  cap_free :: bool
  parse_size :: "string \<Rightarrow> nat option"
  get_original_path :: "call list \<Rightarrow> string \<Rightarrow> string"
  access_x_ok :: "string \<Rightarrow> bool"
  get_elf_linkage :: "string \<Rightarrow> ElfType"
  dlopen_preload :: bool
  setpgid :: setpgid_result
  wait_status :: "call list \<Rightarrow> int"

subsection \<open>The option handlers\<close>

text \<open>
  \<^verbatim>\<open>set_user\<close>: a specifier that \<^verbatim>\<open>strtod\<close> reads to its end (and is not empty) is a
  numeric id; anything else is a name for \<^verbatim>\<open>lookup_user\<close>. The result is the jail and
  \<^verbatim>\<open>*out_uid\<close>, \<^verbatim>\<open>*out_gid\<close>. The value converted to \<^verbatim>\<open>int\<close> is used only in
  the numeric branch, which makes no test on it.
\<close>

definition set_user ::
  "env \<Rightarrow> call list \<Rightarrow> string \<Rightarrow> uid_t \<Rightarrow> gid_t \<Rightarrow> error + (call list \<times> uid_t \<times> gid_t)" where
  "set_user env j arg out_uid out_gid =
     (let (d, end) = strtod arg
      in if end = [] \<and> arg \<noteq> [] then
           (let uid = double_to_int d
            in Inr (j @ [Change_uid (word_of_int uid)], word_of_int uid, out_gid))
         else
           (case lookup_user env arg of
              None \<Rightarrow> Inl (Bad_user arg)
            | Some (u, g) \<Rightarrow>
                if jail_rc env (j @ [Lookup_user arg]) (Change_user arg) \<noteq> 0 then Inl (Bad_user arg)
                else Inr (j @ [Lookup_user arg, Change_user arg], u, g)))"

definition set_group ::
  "env \<Rightarrow> call list \<Rightarrow> string \<Rightarrow> gid_t \<Rightarrow> error + (call list \<times> gid_t)" where
  "set_group env j arg out_gid =
     (let (d, end) = strtod arg
      in if end = [] \<and> arg \<noteq> [] then
           (let gid = double_to_int d
            in Inr (j @ [Change_gid (word_of_int gid)], word_of_int gid))
         else
           (case lookup_group env arg of
              None \<Rightarrow> Inl (Bad_group arg)
            | Some g \<Rightarrow>
                if jail_rc env (j @ [Lookup_group arg]) (Change_group arg) \<noteq> 0 then Inl (Bad_group arg)
                else Inr (j @ [Lookup_group arg, Change_group arg], g)))"

definition skip_securebits :: "call list \<Rightarrow> string \<Rightarrow> error + call list" where
  "skip_securebits j arg =
     (let (securebits_skip_mask, end) = strtoull arg 16
      in if end \<noteq> [] then Inl (Invalid_securebit_mask arg)
         else Inr (j @ [Skip_setting_securebits securebits_skip_mask]))"

definition use_caps :: "call list \<Rightarrow> string \<Rightarrow> error + call list" where
  "use_caps j arg =
     (let (caps, end) = strtoull arg 16
      in if end \<noteq> [] then Inl (Invalid_cap_set arg)
         else Inr (j @ [Use_caps caps]))"

text \<open>
  \<^verbatim>\<open>strtok(arg, ",")\<close> called repeatedly yields the non-empty fields between commas.
\<close>

fun split_on :: "char \<Rightarrow> string \<Rightarrow> string \<Rightarrow> string list" where
  "split_on d acc [] = [rev acc]"
| "split_on d acc (c # cs) = (if c = d then rev acc # split_on d [] cs else split_on d (c # acc) cs)"

definition strtok_all :: "string \<Rightarrow> string list" where
  "strtok_all arg = filter (\<lambda>t. t \<noteq> []) (split_on (CHR '','') [] arg)"

definition add_binding :: "env \<Rightarrow> call list \<Rightarrow> string \<Rightarrow> error + call list" where
  "add_binding env j arg =
     (case strtok_all arg of
        src # dest # toks \<Rightarrow>
          (let c = Bind src dest (case toks of [] \<Rightarrow> 0 | flags # _ \<Rightarrow> atoi flags)
           in if jail_rc env j c \<noteq> 0 then Inl Bind_failed else Inr (j @ [c]))
      | _ \<Rightarrow> Inl Bad_binding)"

definition add_rlimit :: "env \<Rightarrow> call list \<Rightarrow> string \<Rightarrow> error + call list" where
  "add_rlimit env j arg =
     (case strtok_all arg of
        rtype # cur # rmax # _ \<Rightarrow>
          (let c = Rlimit (atoi rtype) (atoi cur) (atoi rmax)
           in if jail_rc env j c \<noteq> 0 then Inl Rlimit_failed else Inr (j @ [c]))
      | _ \<Rightarrow> Inl Bad_rlimit)"

definition add_mount :: "env \<Rightarrow> call list \<Rightarrow> string \<Rightarrow> error + call list" where
  "add_mount env j arg =
     (case strtok_all arg of
        src # dest # fstype # toks \<Rightarrow>
          (let c = Mount_with_data src dest fstype
                     (case toks of [] \<Rightarrow> 0 | flags # _ \<Rightarrow> strtoul flags 16)
                     (case toks of _ # data # _ \<Rightarrow> Some data | _ \<Rightarrow> None)
           in if jail_rc env j c \<noteq> 0 then Inl Mount_failed else Inr (j @ [c]))
      | _ \<Rightarrow> Inl Bad_mount)"

subsection \<open>Id maps\<close>

text \<open>\<^verbatim>\<open>printf\<close>'s \<^verbatim>\<open>%d\<close>: a minus sign for a negative value, then the decimal digits.\<close>

fun dec :: "nat \<Rightarrow> string" where
  "dec n = (if n < 10 then [''0123456789'' ! n] else dec (n div 10) @ [''0123456789'' ! (n mod 10)])"

declare dec.simps [simp del]

definition printf_d :: "int \<Rightarrow> string" where
  "printf_d i = (if i < 0 then CHR ''-'' # dec (nat (- i)) else dec (nat i))"

definition IDMAP_LEN :: nat where
  "IDMAP_LEN = 32"

text \<open>
  \<^verbatim>\<open>build_idmap\<close>: \<^verbatim>\<open>snprintf(idmap, IDMAP_LEN, "%d %d 1", id, lowerid)\<close>. The ids are
  unsigned 32-bit values which \<^verbatim>\<open>%d\<close> prints as signed ones; \<^verbatim>\<open>snprintf\<close> returns the
  length of the whole text, and a text that does not fit is an error.
\<close>

definition build_idmap :: "32 word \<Rightarrow> 32 word \<Rightarrow> error + string" where
  "build_idmap id' lowerid =
     (let idmap = printf_d (sint id') @ '' '' @ printf_d (sint lowerid) @ '' 1'';
          ret = length idmap
      in if ret \<ge> IDMAP_LEN then Inl Could_not_build_idmap else Inr idmap)"

text \<open>\<^verbatim>\<open>has_cap_setgid\<close>: whether \<^verbatim>\<open>CAP_SETGID\<close> is in the effective set of the process.\<close>

definition has_cap_setgid :: "env \<Rightarrow> error + bool" where
  "has_cap_setgid env =
     (if \<not> cap_setgid_supported env then Inr False
      else if \<not> cap_get_proc env then Inl Could_not_get_capabilities
      else (case cap_get_flag env of
              None \<Rightarrow> Inl Could_not_get_cap_value
            | Some cap_set \<Rightarrow>
                if \<not> cap_free env then Inl Could_not_free_capabilities else Inr cap_set))"

definition set_ugid_mapping ::
  "env \<Rightarrow> call list \<Rightarrow> bool \<Rightarrow> uid_t \<Rightarrow> string option \<Rightarrow> bool \<Rightarrow> gid_t \<Rightarrow> string option
     \<Rightarrow> error + call list" where
  "set_ugid_mapping env j set_uidmap uid uidmap set_gidmap gid gidmap =
     (case (if set_uidmap then
              (let j1 = j @ [Namespace_user, Namespace_pids]
               in case (case uidmap of None \<Rightarrow> build_idmap uid (getuid env) | Some m \<Rightarrow> Inr m) of
                    Inl e \<Rightarrow> Inl e
                  | Inr m \<Rightarrow>
                      if jail_rc env j1 (Uidmap m) \<noteq> 0 then Inl Could_not_set_uidmap
                      else Inr (j1 @ [Uidmap m]))
            else Inr j) of
        Inl e \<Rightarrow> Inl e
      | Inr j2 \<Rightarrow>
          if set_gidmap then
            (let j3 = j2 @ [Namespace_user, Namespace_pids]
             in case (case gidmap of None \<Rightarrow> build_idmap gid (getgid env) | Some m \<Rightarrow> Inr m) of
                  Inl e \<Rightarrow> Inl e
                | Inr m \<Rightarrow>
                    (case has_cap_setgid env of
                       Inl e \<Rightarrow> Inl e
                     | Inr has \<Rightarrow>
                         (let j4 = (if has then j3 else j3 @ [Namespace_user_disable_setgroups])
                          in if jail_rc env j4 (Gidmap m) \<noteq> 0 then Inl Could_not_set_gidmap
                             else Inr (j4 @ [Gidmap m]))))
          else Inr j2)"

subsection \<open>\<^verbatim>\<open>parse_args\<close>\<close>

text \<open>
  What \<^verbatim>\<open>getopt_long\<close> returns on each call: the option and its argument. An option
  whose argument is optional carries \<open>None\<close> when \<^verbatim>\<open>optarg\<close> is null. \<open>Opt_unknown\<close> is
  \<^verbatim>\<open>'?'\<close>, an unknown option or a missing argument.
\<close>

datatype opt =
    Opt_u string | Opt_g string | Opt_n | Opt_s | Opt_S string | Opt_l | Opt_L
  | Opt_b string | Opt_B string | Opt_c string | Opt_C string | Opt_k string | Opt_K
  | Opt_P string | Opt_f string | Opt_t "string option" | Opt_v | Opt_V string | Opt_r
  | Opt_G | Opt_y | Opt_N | Opt_p | Opt_e "string option" | Opt_i | Opt_H | Opt_I | Opt_U
  | Opt_m "string option" | Opt_M "string option" | Opt_a string | Opt_R string
  | Opt_T string | Opt_w | Opt_Y | Opt_z | Opt_d
  | Opt_ambient | Opt_uts "string option" | Opt_logging string
  | Opt_h | Opt_unknown

text \<open>
  The local variables of \<^verbatim>\<open>parse_args\<close>, the jail \<^verbatim>\<open>j\<close> and the two out-parameters
  \<^verbatim>\<open>*exit_immediately\<close> and \<^verbatim>\<open>*elftype\<close>.
\<close>

record pstate =
  j :: "call list"
  exit_immediately :: bool
  elftype :: ElfType
  use_seccomp_filter :: bool
  forward :: bool
  binding :: bool
  chroot :: bool
  pivot_root :: bool
  mount_ns :: bool
  skip_remount :: bool
  inherit_suppl_gids :: bool
  keep_suppl_gids :: bool
  caps :: bool
  ambient_caps :: bool
  seccomp :: int
  uid :: uid_t
  gid :: gid_t
  uidmap :: "string option"
  gidmap :: "string option"
  set_uidmap :: bool
  set_gidmap :: bool
  filter_path :: "string option"
  log_to_stderr :: bool

definition init_state :: pstate where
  "init_state =
     \<lparr> j = [], exit_immediately = False, elftype = ELFERROR, use_seccomp_filter = False,
       forward = True, binding = False, chroot = False, pivot_root = False, mount_ns = False,
       skip_remount = False, inherit_suppl_gids = False, keep_suppl_gids = False,
       caps = False, ambient_caps = False, seccomp = - 1, uid = 0, gid = 0,
       uidmap = None, gidmap = None, set_uidmap = False, set_gidmap = False,
       filter_path = None, log_to_stderr = False \<rparr>"

definition path_max :: nat where
  "path_max = 4096"

text \<open>One turn of the \<^verbatim>\<open>while\<close> loop: the \<^verbatim>\<open>switch\<close> on the option.\<close>

fun parse_opt :: "env \<Rightarrow> pstate \<Rightarrow> opt \<Rightarrow> error + pstate" where
  "parse_opt env st (Opt_u optarg) =
     (case set_user env (j st) optarg (uid st) (gid st) of
        Inl e \<Rightarrow> Inl e
      | Inr (j', u, g) \<Rightarrow> Inr (st\<lparr>j := j', uid := u, gid := g\<rparr>))"
| "parse_opt env st (Opt_g optarg) =
     (case set_group env (j st) optarg (gid st) of
        Inl e \<Rightarrow> Inl e
      | Inr (j', g) \<Rightarrow> Inr (st\<lparr>j := j', gid := g\<rparr>))"
| "parse_opt env st Opt_n = Inr (st\<lparr>j := j st @ [No_new_privs]\<rparr>)"
| "parse_opt env st Opt_s =
     (if seccomp st \<noteq> - 1 \<and> seccomp st \<noteq> 1 then Inl Seccomp_s_and_S_together
      else Inr (st\<lparr>seccomp := 1, j := j st @ [Use_seccomp]\<rparr>))"
| "parse_opt env st (Opt_S optarg) =
     (if seccomp st \<noteq> - 1 \<and> seccomp st \<noteq> 2 then Inl Seccomp_s_and_S_together
      else if length optarg \<ge> path_max then Inl Filter_path_too_long
      else Inr (st\<lparr>seccomp := 2, j := j st @ [Use_seccomp_filter],
                   filter_path := Some optarg, use_seccomp_filter := True\<rparr>))"
| "parse_opt env st Opt_l = Inr (st\<lparr>j := j st @ [Namespace_ipc]\<rparr>)"
| "parse_opt env st Opt_L = Inr (st\<lparr>j := j st @ [Log_seccomp_filter_failures]\<rparr>)"
| "parse_opt env st (Opt_b optarg) =
     (case add_binding env (j st) optarg of
        Inl e \<Rightarrow> Inl e
      | Inr j' \<Rightarrow> Inr (st\<lparr>j := j', binding := True\<rparr>))"
| "parse_opt env st (Opt_B optarg) =
     (case skip_securebits (j st) optarg of
        Inl e \<Rightarrow> Inl e
      | Inr j' \<Rightarrow> Inr (st\<lparr>j := j'\<rparr>))"
| "parse_opt env st (Opt_c optarg) =
     (case use_caps (j st) optarg of
        Inl e \<Rightarrow> Inl e
      | Inr j' \<Rightarrow> Inr (st\<lparr>caps := True, j := j'\<rparr>))"
| "parse_opt env st (Opt_C optarg) =
     (if pivot_root st then Inl Chroot_after_pivot_root
      else if jail_rc env (j st) (Enter_chroot optarg) \<noteq> 0 then Inl Could_not_set_chroot
      else Inr (st\<lparr>j := j st @ [Enter_chroot optarg], chroot := True\<rparr>))"
| "parse_opt env st (Opt_k optarg) =
     (case add_mount env (j st) optarg of
        Inl e \<Rightarrow> Inl e
      | Inr j' \<Rightarrow> Inr (st\<lparr>j := j'\<rparr>))"
| "parse_opt env st Opt_K =
     Inr (st\<lparr>j := j st @ [Skip_remount_private], skip_remount := True\<rparr>)"
| "parse_opt env st (Opt_P optarg) =
     (if chroot st then Inl Pivot_root_after_chroot
      else if jail_rc env (j st) (Enter_pivot_root optarg) \<noteq> 0 then Inl Could_not_set_pivot_root
      else Inr (st\<lparr>j := j st @ [Enter_pivot_root optarg, Namespace_vfs], pivot_root := True\<rparr>))"
| "parse_opt env st (Opt_f optarg) =
     (if jail_rc env (j st) (Write_pid_file optarg) \<noteq> 0 then Inl Could_not_prepare_pid_file
      else Inr (st\<lparr>j := j st @ [Write_pid_file optarg]\<rparr>))"
| "parse_opt env st (Opt_t optarg) =
     (case optarg of
        None \<Rightarrow> Inr (st\<lparr>j := j st @ [Namespace_vfs, Mount_tmp_size (64 * 1024 * 1024)]\<rparr>)
      | Some a \<Rightarrow>
          (case parse_size env a of
             None \<Rightarrow> Inl Invalid_tmpfs_size
           | Some size' \<Rightarrow> Inr (st\<lparr>j := j st @ [Namespace_vfs, Mount_tmp_size size']\<rparr>)))"
| "parse_opt env st Opt_v = Inr (st\<lparr>j := j st @ [Namespace_vfs], mount_ns := True\<rparr>)"
| "parse_opt env st (Opt_V optarg) = Inr (st\<lparr>j := j st @ [Namespace_enter_vfs optarg]\<rparr>)"
| "parse_opt env st Opt_r = Inr (st\<lparr>j := j st @ [Remount_proc_readonly]\<rparr>)"
| "parse_opt env st Opt_G =
     (if keep_suppl_gids st then Inl Suppl_gids_not_compatible
      else Inr (st\<lparr>j := j st @ [Inherit_usergroups], inherit_suppl_gids := True\<rparr>))"
| "parse_opt env st Opt_y =
     (if inherit_suppl_gids st then Inl Suppl_gids_not_compatible
      else Inr (st\<lparr>j := j st @ [Keep_supplementary_gids], keep_suppl_gids := True\<rparr>))"
| "parse_opt env st Opt_N = Inr (st\<lparr>j := j st @ [Namespace_cgroups]\<rparr>)"
| "parse_opt env st Opt_p = Inr (st\<lparr>j := j st @ [Namespace_pids]\<rparr>)"
| "parse_opt env st (Opt_e optarg) =
     (case optarg of
        Some a \<Rightarrow> Inr (st\<lparr>j := j st @ [Namespace_enter_net a]\<rparr>)
      | None \<Rightarrow> Inr (st\<lparr>j := j st @ [Namespace_net]\<rparr>))"
| "parse_opt env st Opt_i = Inr (st\<lparr>exit_immediately := True\<rparr>)"
| "parse_opt env st Opt_H = Inl Seccomp_filter_usage"
| "parse_opt env st Opt_I = Inr (st\<lparr>j := j st @ [Namespace_pids, Run_as_init]\<rparr>)"
| "parse_opt env st Opt_U = Inr (st\<lparr>j := j st @ [Namespace_user, Namespace_pids]\<rparr>)"
| "parse_opt env st (Opt_m optarg) = Inr (st\<lparr>set_uidmap := True, uidmap := optarg\<rparr>)"
| "parse_opt env st (Opt_M optarg) = Inr (st\<lparr>set_gidmap := True, gidmap := optarg\<rparr>)"
| "parse_opt env st (Opt_a optarg) =
     (if jail_rc env (j st) (Use_alt_syscall optarg) \<noteq> 0 then Inl Could_not_set_alt_syscall
      else Inr (st\<lparr>j := j st @ [Use_alt_syscall optarg]\<rparr>))"
| "parse_opt env st (Opt_R optarg) =
     (case add_rlimit env (j st) optarg of
        Inl e \<Rightarrow> Inl e
      | Inr j' \<Rightarrow> Inr (st\<lparr>j := j'\<rparr>))"
| "parse_opt env st (Opt_T optarg) =
     (if optarg = ''static'' then Inr (st\<lparr>elftype := ELFSTATIC\<rparr>)
      else if optarg = ''dynamic'' then Inr (st\<lparr>elftype := ELFDYNAMIC\<rparr>)
      else Inl Bad_elf_type)"
| "parse_opt env st Opt_w = Inr (st\<lparr>j := j st @ [New_session_keyring]\<rparr>)"
| "parse_opt env st Opt_Y = Inr (st\<lparr>j := j st @ [Set_seccomp_filter_tsync]\<rparr>)"
| "parse_opt env st Opt_z = Inr (st\<lparr>forward := False\<rparr>)"
| "parse_opt env st Opt_d = Inr (st\<lparr>j := j st @ [Namespace_vfs, Mount_dev]\<rparr>)"
| "parse_opt env st Opt_ambient = Inr (st\<lparr>ambient_caps := True, j := j st @ [Set_ambient_caps]\<rparr>)"
| "parse_opt env st (Opt_uts optarg) =
     (case optarg of
        Some a \<Rightarrow> Inr (st\<lparr>j := j st @ [Namespace_uts, Namespace_set_hostname a]\<rparr>)
      | None \<Rightarrow> Inr (st\<lparr>j := j st @ [Namespace_uts]\<rparr>))"
| "parse_opt env st (Opt_logging optarg) =
     (if optarg = ''syslog'' then Inr (st\<lparr>log_to_stderr := False\<rparr>)
      else if optarg = ''stderr'' then Inr (st\<lparr>log_to_stderr := True\<rparr>)
      else Inl Bad_logger)"
| "parse_opt env st Opt_h = Inl (Usage 0)"
| "parse_opt env st Opt_unknown = Inl (Usage 1)"

text \<open>The loop: options in the order \<^verbatim>\<open>getopt_long\<close> yields them, until one exits.\<close>

fun parse_opts :: "env \<Rightarrow> pstate \<Rightarrow> opt list \<Rightarrow> error + pstate" where
  "parse_opts env st [] = Inr st"
| "parse_opts env st (x # xs) =
     (case parse_opt env st x of Inl e \<Rightarrow> Inl e | Inr st' \<Rightarrow> parse_opts env st' xs)"

text \<open>
  After the loop, in the order of the source. First the logging destination and the
  id maps.
\<close>

definition setup_logging :: "env \<Rightarrow> pstate \<Rightarrow> error + pstate" where
  "setup_logging env st =
     (if log_to_stderr st then
        (if jail_rc env (j st @ [Init_logging_stderr]) (Preserve_fd 2 2) \<noteq> 0
         then Inl Could_not_preserve_stderr
         else Inr (st\<lparr>j := j st @ [Init_logging_stderr, Preserve_fd 2 2]\<rparr>))
      else Inr st)"

definition setup_mapping :: "env \<Rightarrow> pstate \<Rightarrow> error + pstate" where
  "setup_mapping env st =
     (if set_uidmap st \<or> set_gidmap st then
        (case set_ugid_mapping env (j st) (set_uidmap st) (uid st) (uidmap st)
                (set_gidmap st) (gid st) (gidmap st) of
           Inl e \<Rightarrow> Inl e
         | Inr j' \<Rightarrow> Inr (st\<lparr>j := j'\<rparr>))
      else Inr st)"

text \<open>
  Then the checks on the combination of options, the signal handlers, the seccomp
  policy file, and the test that a program was named (\<open>rest\<close> is \<^verbatim>\<open>argv\<close> from
  \<^verbatim>\<open>optind\<close> on).
\<close>

definition check_combination :: "pstate \<Rightarrow> string list \<Rightarrow> error + pstate" where
  "check_combination st rest =
     (if ambient_caps st \<and> \<not> caps st then Inl Ambient_without_caps
      else
        let st1 = (if forward st then st\<lparr>j := j st @ [Forward_signals]\<rparr> else st)
        in if binding st1 \<and> \<not> (chroot st1 \<or> pivot_root st1 \<or> mount_ns st1)
           then Inl Bind_without_root_or_mount_ns
           else if skip_remount st1 \<and> \<not> mount_ns st1 then Inl Skip_remount_without_mount_ns
           else
             let st2 = (if use_seccomp_filter st1
                        then st1\<lparr>j := j st1 @ [Parse_seccomp_filters (filter_path st1)]\<rparr>
                        else st1)
             in if rest = [] then Inl (Usage 1) else Inr st2)"

text \<open>Without \<^verbatim>\<open>-T\<close> the target is looked at: it must be executable, and its ELF header
  gives the linkage.\<close>

definition resolve_elftype :: "env \<Rightarrow> pstate \<Rightarrow> string list \<Rightarrow> error + pstate" where
  "resolve_elftype env st rest =
     (if elftype st = ELFERROR then
        (case rest of
           [] \<Rightarrow> Inl (Usage 1)
         | prog # _ \<Rightarrow>
             (let program_path = get_original_path env (j st) prog
              in if \<not> access_x_ok env program_path then Inl (Not_accessible prog)
                 else Inr (st\<lparr>elftype := get_elf_linkage env program_path\<rparr>)))
      else Inr st)"

text \<open>Capabilities survive \<^verbatim>\<open>execve\<close> in a dynamically linked target or as ambient ones.\<close>

definition check_static_caps :: "pstate \<Rightarrow> error + pstate" where
  "check_static_caps st =
     (if caps st \<and> elftype st = ELFSTATIC \<and> \<not> ambient_caps st then Inl Static_caps_without_ambient
      else Inr st)"

text \<open>
  The loop, the logging set-up and the id maps: what \<^verbatim>\<open>parse_args\<close> does before it
  checks the combination of options.
\<close>

definition collect_options :: "env \<Rightarrow> opt list \<Rightarrow> error + pstate" where
  "collect_options env opts =
     (case parse_opts env init_state opts of
        Inl e \<Rightarrow> Inl e
      | Inr st \<Rightarrow>
          (case setup_logging env st of
             Inl e \<Rightarrow> Inl e
           | Inr st1 \<Rightarrow> setup_mapping env st1))"

text \<open>
  \<^verbatim>\<open>parse_args\<close>, called by \<^verbatim>\<open>main\<close> on a new jail with \<^verbatim>\<open>exit_immediately = 0\<close> and
  \<^verbatim>\<open>elftype = ELFERROR\<close>. The returned \<^verbatim>\<open>optind\<close> is the position of \<open>rest\<close> in \<^verbatim>\<open>argv\<close>.
\<close>

definition parse_args :: "env \<Rightarrow> opt list \<Rightarrow> string list \<Rightarrow> error + pstate" where
  "parse_args env opts rest =
     (case collect_options env opts of
        Inl e \<Rightarrow> Inl e
      | Inr st2 \<Rightarrow>
          (case check_combination st2 rest of
             Inl e \<Rightarrow> Inl e
           | Inr st3 \<Rightarrow>
               (case resolve_elftype env st3 rest of
                  Inl e \<Rightarrow> Inl e
                | Inr st4 \<Rightarrow> check_static_caps st4)))"

subsection \<open>\<^verbatim>\<open>main\<close>\<close>

text \<open>
  How the target was started: \<^verbatim>\<open>minijail_run_no_preload\<close> for a static target,
  \<^verbatim>\<open>minijail_run\<close> (with \<^verbatim>\<open>libminijailpreload.so\<close>) for a dynamic one.
\<close>

datatype strategy = DirectExec | PreloadExec

text \<open>The result of a run that reaches the jail: the strategy, the calls made and the
  exit status.\<close>

definition main :: "env \<Rightarrow> opt list \<Rightarrow> string list \<Rightarrow> error + (strategy \<times> call list \<times> int)" where
  "main env opts rest =
     (case parse_args env opts rest of
        Inl e \<Rightarrow> Inl e
      | Inr st \<Rightarrow>
          if setpgid env = Setpgid_error then Inl Setpgid_failed
          else
            (case rest of
               [] \<Rightarrow> Inl (Usage 1)
             | prog # _ \<Rightarrow>
                 (case (if elftype st = ELFSTATIC
                        then Inr (DirectExec, j st @ [Run_no_preload prog rest])
                        else if elftype st = ELFDYNAMIC
                        then (if \<not> dlopen_preload env then Inl Dlopen_failed
                              else Inr (PreloadExec, j st @ [Run prog rest]))
                        else Inl (Not_valid_elf prog)) of
                    Inl e \<Rightarrow> Inl e
                  | Inr (s, j') \<Rightarrow>
                      if exit_immediately st then Inr (s, j', 0)
                      else Inr (s, j', wait_status env j'))))"

subsection \<open>Vocabulary for the properties\<close>

text \<open>Which option a token is, whatever its argument.\<close>

definition is_caps :: "opt \<Rightarrow> bool" where
  "is_caps x = (case x of Opt_c _ \<Rightarrow> True | _ \<Rightarrow> False)"

definition is_bind :: "opt \<Rightarrow> bool" where
  "is_bind x = (case x of Opt_b _ \<Rightarrow> True | _ \<Rightarrow> False)"

definition is_chroot :: "opt \<Rightarrow> bool" where
  "is_chroot x = (case x of Opt_C _ \<Rightarrow> True | _ \<Rightarrow> False)"

definition is_pivot_root :: "opt \<Rightarrow> bool" where
  "is_pivot_root x = (case x of Opt_P _ \<Rightarrow> True | _ \<Rightarrow> False)"

definition is_user :: "opt \<Rightarrow> bool" where
  "is_user x = (case x of Opt_u _ \<Rightarrow> True | _ \<Rightarrow> False)"

text \<open>The arguments of the \<^verbatim>\<open>-m\<close> and of the \<^verbatim>\<open>-M\<close> options, in order.\<close>

fun uidmap_args :: "opt list \<Rightarrow> string option list" where
  "uidmap_args [] = []"
| "uidmap_args (x # xs) = (case x of Opt_m a \<Rightarrow> a # uidmap_args xs | _ \<Rightarrow> uidmap_args xs)"

fun gidmap_args :: "opt list \<Rightarrow> string option list" where
  "gidmap_args [] = []"
| "gidmap_args (x # xs) = (case x of Opt_M a \<Rightarrow> a # gidmap_args xs | _ \<Rightarrow> gidmap_args xs)"

text \<open>The calls that build the id maps of the user namespace.\<close>

definition is_idmap_call :: "call \<Rightarrow> bool" where
  "is_idmap_call c =
     (case c of
        Uidmap _ \<Rightarrow> True
      | Gidmap _ \<Rightarrow> True
      | Namespace_user_disable_setgroups \<Rightarrow> True
      | _ \<Rightarrow> False)"

text \<open>
  An environment in which every collaborator succeeds: an unprivileged caller with uid
  and gid 1000 and no user database, and a target of the given linkage.
\<close>

definition plain_env :: "ElfType \<Rightarrow> env" where
  "plain_env linkage =
     \<lparr> jail_rc = (\<lambda>_ _. 0), lookup_user = (\<lambda>_. None), lookup_group = (\<lambda>_. None),
       getuid = 1000, getgid = 1000, cap_setgid_supported = True, cap_get_proc = True,
       cap_get_flag = Some False, cap_free = True, parse_size = (\<lambda>_. None),
       get_original_path = (\<lambda>_ p. p), access_x_ok = (\<lambda>_. True),
       get_elf_linkage = (\<lambda>_. linkage), dlopen_preload = True, setpgid = Setpgid_ok,
       wait_status = (\<lambda>_. 0) \<rparr>"

text \<open>Two states of \<^verbatim>\<open>parse_args\<close> that differ at most in the calls made on the jail.\<close>

definition same_vars :: "pstate \<Rightarrow> pstate \<Rightarrow> bool" where
  "same_vars st st' \<longleftrightarrow> st' = st\<lparr>j := j st'\<rparr>"

text \<open>The errors of the checks that follow the loop.\<close>

definition late_error :: "error \<Rightarrow> bool" where
  "late_error e \<longleftrightarrow>
     e = Ambient_without_caps \<or> e = Bind_without_root_or_mount_ns \<or>
     e = Skip_remount_without_mount_ns \<or> e = Static_caps_without_ambient"

section \<open>Properties\<close>


subsection \<open>Rules for evaluating concrete runs\<close>

lemmas opt_kind_defs = is_caps_def is_bind_def is_chroot_def is_pivot_root_def is_user_def

lemmas ctype_defs = isspace_def isdigit_def isalpha_def digit_val_def is_digit_of_def digits_val_def

lemmas strtoull_defs = strtoull_def strto_scan_def ctype_defs

lemmas stage_defs = collect_options_def setup_logging_def setup_mapping_def check_combination_def
  resolve_elftype_def check_static_caps_def init_state_def

lemma plain_env_fields:
  "jail_rc (plain_env l) h c = 0" "lookup_user (plain_env l) n = None"
  "lookup_group (plain_env l) n = None" "getuid (plain_env l) = 1000" "getgid (plain_env l) = 1000"
  "cap_setgid_supported (plain_env l)" "cap_get_proc (plain_env l)"
  "cap_get_flag (plain_env l) = Some False" "cap_free (plain_env l)"
  "parse_size (plain_env l) a = None" "get_original_path (plain_env l) h p = p"
  "access_x_ok (plain_env l) p" "get_elf_linkage (plain_env l) p = l"
  "dlopen_preload (plain_env l)" "setpgid (plain_env l) = Setpgid_ok"
  "wait_status (plain_env l) h = 0"
  by (simp_all add: plain_env_def)

lemmas run_defs = parse_args_def stage_defs plain_env_fields



lemma use_caps_0x1: "use_caps jl ''0x1'' = Inr (jl @ [Use_caps 1])"
  by (simp add: use_caps_def strtoull_defs)

lemma use_caps_1: "use_caps jl ''1'' = Inr (jl @ [Use_caps 1])"
  by (simp add: use_caps_def strtoull_defs)


lemma strtoull_empty: "strtoull [] 16 = (0, [])"
  by (simp add: strtoull_def strto_scan_def)

subsection \<open>What the option loop records\<close>

lemma parse_opt_flags:
  assumes "parse_opt env st x = Inr st'"
  shows "caps st' = (caps st \<or> is_caps x)"
    and "ambient_caps st' = (ambient_caps st \<or> x = Opt_ambient)"
    and "binding st' = (binding st \<or> is_bind x)"
    and "chroot st' = (chroot st \<or> is_chroot x)"
    and "pivot_root st' = (pivot_root st \<or> is_pivot_root x)"
    and "mount_ns st' = (mount_ns st \<or> x = Opt_v)"
    and "skip_remount st' = (skip_remount st \<or> x = Opt_K)"
  using assms
  by (cases x; auto simp: opt_kind_defs split: sum.splits if_splits prod.splits option.splits)+

lemma parse_opts_flags:
  "parse_opts env st xs = Inr st' \<Longrightarrow>
     caps st' = (caps st \<or> (\<exists>x\<in>set xs. is_caps x)) \<and>
     ambient_caps st' = (ambient_caps st \<or> Opt_ambient \<in> set xs) \<and>
     binding st' = (binding st \<or> (\<exists>x\<in>set xs. is_bind x)) \<and>
     chroot st' = (chroot st \<or> (\<exists>x\<in>set xs. is_chroot x)) \<and>
     pivot_root st' = (pivot_root st \<or> (\<exists>x\<in>set xs. is_pivot_root x)) \<and>
     mount_ns st' = (mount_ns st \<or> Opt_v \<in> set xs) \<and>
     skip_remount st' = (skip_remount st \<or> Opt_K \<in> set xs)"
proof (induction xs arbitrary: st)
  case Nil
  then show ?case by simp
next
  case (Cons x xs)
  from Cons.prems obtain st1 where
    step: "parse_opt env st x = Inr st1" and tail: "parse_opts env st1 xs = Inr st'"
    by (auto split: sum.splits)
  note ih = Cons.IH [OF tail]
  note fl = parse_opt_flags [OF step]
  show ?case
    by (simp add: ih fl) blast
qed

lemma parse_opts_append:
  "parse_opts env st (xs @ ys) =
     (case parse_opts env st xs of Inl e \<Rightarrow> Inl e | Inr st' \<Rightarrow> parse_opts env st' ys)"
  by (induction xs arbitrary: st) (auto split: sum.splits)

lemma parse_opt_maps:
  assumes "parse_opt env st x = Inr st'"
  shows "set_uidmap st' = (set_uidmap st \<or> uidmap_args [x] \<noteq> [])"
    and "uidmap st' = (if uidmap_args [x] = [] then uidmap st else last (uidmap_args [x]))"
    and "set_gidmap st' = (set_gidmap st \<or> gidmap_args [x] \<noteq> [])"
    and "gidmap st' = (if gidmap_args [x] = [] then gidmap st else last (gidmap_args [x]))"
    and "\<not> is_user x \<Longrightarrow> uid st' = uid st"
  using assms
  by (cases x; auto simp: is_user_def split: sum.splits if_splits prod.splits option.splits)+

lemma uidmap_args_Cons:
  "uidmap_args (x # xs) = uidmap_args [x] @ uidmap_args xs"
  by (cases x) simp_all

lemma gidmap_args_Cons:
  "gidmap_args (x # xs) = gidmap_args [x] @ gidmap_args xs"
  by (cases x) simp_all

lemma parse_opts_maps:
  "parse_opts env st xs = Inr st' \<Longrightarrow>
     set_uidmap st' = (set_uidmap st \<or> uidmap_args xs \<noteq> []) \<and>
     uidmap st' = (if uidmap_args xs = [] then uidmap st else last (uidmap_args xs)) \<and>
     set_gidmap st' = (set_gidmap st \<or> gidmap_args xs \<noteq> []) \<and>
     gidmap st' = (if gidmap_args xs = [] then gidmap st else last (gidmap_args xs)) \<and>
     ((\<forall>x\<in>set xs. \<not> is_user x) \<longrightarrow> uid st' = uid st)"
proof (induction xs arbitrary: st)
  case Nil
  then show ?case by simp
next
  case (Cons x xs)
  from Cons.prems obtain st1 where
    step: "parse_opt env st x = Inr st1" and tail: "parse_opts env st1 xs = Inr st'"
    by (auto split: sum.splits)
  note ih = Cons.IH [OF tail]
  note m = parse_opt_maps [OF step]
  show ?case
    by (simp add: ih m(1-4) uidmap_args_Cons [of x xs] gidmap_args_Cons [of x xs]
             del: uidmap_args.simps gidmap_args.simps)
       (use m(5) in auto)
qed

lemma parse_opt_exclusive:
  "parse_opt env st x = Inr st' \<Longrightarrow> \<not> (chroot st \<and> pivot_root st) \<Longrightarrow>
     \<not> (chroot st' \<and> pivot_root st')"
  by (cases x) (auto split: sum.splits if_splits prod.splits option.splits)

lemma parse_opts_exclusive:
  "parse_opts env st xs = Inr st' \<Longrightarrow> \<not> (chroot st \<and> pivot_root st) \<Longrightarrow>
     \<not> (chroot st' \<and> pivot_root st')"
proof (induction xs arbitrary: st)
  case Nil
  then show ?case by simp
next
  case (Cons x xs)
  from Cons.prems(1) obtain st1 where
    step: "parse_opt env st x = Inr st1" and tail: "parse_opts env st1 xs = Inr st'"
    by (auto split: sum.splits)
  from parse_opt_exclusive [OF step Cons.prems(2)] Cons.IH [OF tail]
  show ?case by blast
qed

subsection \<open>The steps after the loop\<close>

lemma same_vars_fields:
  assumes "same_vars st st'"
  shows "caps st' = caps st" "ambient_caps st' = ambient_caps st" "binding st' = binding st"
    "chroot st' = chroot st" "pivot_root st' = pivot_root st" "mount_ns st' = mount_ns st"
    "skip_remount st' = skip_remount st" "elftype st' = elftype st" "uid st' = uid st"
    "gid st' = gid st" "exit_immediately st' = exit_immediately st"
    "set_uidmap st' = set_uidmap st" "set_gidmap st' = set_gidmap st"
    "uidmap st' = uidmap st" "gidmap st' = gidmap st"
proof -
  have eq: "st' = st\<lparr>j := j st'\<rparr>"
    using assms by (simp add: same_vars_def)
  show "caps st' = caps st" by (subst eq) simp
  show "ambient_caps st' = ambient_caps st" by (subst eq) simp
  show "binding st' = binding st" by (subst eq) simp
  show "chroot st' = chroot st" by (subst eq) simp
  show "pivot_root st' = pivot_root st" by (subst eq) simp
  show "mount_ns st' = mount_ns st" by (subst eq) simp
  show "skip_remount st' = skip_remount st" by (subst eq) simp
  show "elftype st' = elftype st" by (subst eq) simp
  show "uid st' = uid st" by (subst eq) simp
  show "gid st' = gid st" by (subst eq) simp
  show "exit_immediately st' = exit_immediately st" by (subst eq) simp
  show "set_uidmap st' = set_uidmap st" by (subst eq) simp
  show "set_gidmap st' = set_gidmap st" by (subst eq) simp
  show "uidmap st' = uidmap st" by (subst eq) simp
  show "gidmap st' = gidmap st" by (subst eq) simp
qed

lemma setup_logging_state:
  "setup_logging env st = Inr st1 \<Longrightarrow> same_vars st st1"
  by (auto simp: setup_logging_def same_vars_def split: if_splits)

lemma setup_mapping_state:
  "setup_mapping env st = Inr st1 \<Longrightarrow> same_vars st st1"
  by (auto simp: setup_mapping_def same_vars_def split: if_splits sum.splits)

lemma collect_options_Inr:
  "collect_options env opts = Inr st2 \<longleftrightarrow>
     (\<exists>st st1. parse_opts env init_state opts = Inr st \<and> setup_logging env st = Inr st1 \<and>
        setup_mapping env st1 = Inr st2)"
  by (auto simp: collect_options_def split: sum.splits)

lemma collect_options_flags:
  assumes "collect_options env opts = Inr st"
  shows "caps st = (\<exists>x\<in>set opts. is_caps x)"
    and "ambient_caps st = (Opt_ambient \<in> set opts)"
    and "binding st = (\<exists>x\<in>set opts. is_bind x)"
    and "chroot st = (\<exists>x\<in>set opts. is_chroot x)"
    and "pivot_root st = (\<exists>x\<in>set opts. is_pivot_root x)"
    and "mount_ns st = (Opt_v \<in> set opts)"
    and "skip_remount st = (Opt_K \<in> set opts)"
proof -
  from assms obtain s0 s1 where
    loop: "parse_opts env init_state opts = Inr s0" and
    lg: "setup_logging env s0 = Inr s1" and mp: "setup_mapping env s1 = Inr st"
    by (auto simp: collect_options_Inr)
  note a = same_vars_fields [OF setup_logging_state [OF lg]]
  note b = same_vars_fields [OF setup_mapping_state [OF mp]]
  note fl = parse_opts_flags [OF loop]
  show "caps st = (\<exists>x\<in>set opts. is_caps x)"
    by (simp add: a b fl init_state_def)
  show "ambient_caps st = (Opt_ambient \<in> set opts)"
    by (simp add: a b fl init_state_def)
  show "binding st = (\<exists>x\<in>set opts. is_bind x)"
    by (simp add: a b fl init_state_def)
  show "chroot st = (\<exists>x\<in>set opts. is_chroot x)"
    by (simp add: a b fl init_state_def)
  show "pivot_root st = (\<exists>x\<in>set opts. is_pivot_root x)"
    by (simp add: a b fl init_state_def)
  show "mount_ns st = (Opt_v \<in> set opts)"
    by (simp add: a b fl init_state_def)
  show "skip_remount st = (Opt_K \<in> set opts)"
    by (simp add: a b fl init_state_def)
qed

lemma check_combination_flags:
  "check_combination st rest = Inr st' \<Longrightarrow>
     caps st' = caps st \<and> ambient_caps st' = ambient_caps st \<and> elftype st' = elftype st"
  by (auto simp: check_combination_def Let_def split: if_splits)

lemma resolve_elftype_flags:
  "resolve_elftype env st rest = Inr st' \<Longrightarrow>
     caps st' = caps st \<and> ambient_caps st' = ambient_caps st"
  by (auto simp: resolve_elftype_def Let_def split: if_splits list.splits)

lemma parse_args_Inr_stages:
  "parse_args env opts rest = Inr st \<Longrightarrow>
     \<exists>st2 st3 st4. collect_options env opts = Inr st2 \<and> check_combination st2 rest = Inr st3 \<and>
        resolve_elftype env st3 rest = Inr st4 \<and> check_static_caps st4 = Inr st"
  by (auto simp: parse_args_def split: sum.splits)

lemma check_static_caps_Inr:
  "check_static_caps st4 = Inr st \<Longrightarrow>
     st = st4 \<and> \<not> (caps st4 \<and> elftype st4 = ELFSTATIC \<and> \<not> ambient_caps st4)"
  by (auto simp: check_static_caps_def split: if_splits)

lemma main_DirectExec:
  "main env opts rest = Inr (DirectExec, tr, status) \<Longrightarrow>
     \<exists>st. parse_args env opts rest = Inr st \<and> elftype st = ELFSTATIC"
  by (auto simp: main_def split: sum.splits if_splits list.splits prod.splits)

lemma resolve_elftype_Inl:
  "resolve_elftype env st rest = Inl e \<Longrightarrow> e = Usage 1 \<or> (\<exists>p. e = Not_accessible p)"
  by (auto simp: resolve_elftype_def Let_def split: if_splits list.splits)

lemma check_static_caps_Inl:
  "check_static_caps st = Inl e \<Longrightarrow> e = Static_caps_without_ambient"
  by (auto simp: check_static_caps_def split: if_splits)

lemma parse_args_Inr:
  "parse_args env opts rest = Inr st' \<Longrightarrow>
     \<exists>st2 st3. collect_options env opts = Inr st2 \<and> check_combination st2 rest = Inr st3"
  by (auto simp: parse_args_def split: sum.splits)

lemma parse_args_after_collect:
  assumes "collect_options env opts = Inr st"
  shows "check_combination st rest = Inl e \<Longrightarrow> parse_args env opts rest = Inl e"
    and "check_combination st rest \<noteq> Inl e \<Longrightarrow> e \<noteq> Usage 1 \<Longrightarrow>
           (\<forall>p. e \<noteq> Not_accessible p) \<Longrightarrow> e \<noteq> Static_caps_without_ambient \<Longrightarrow>
           parse_args env opts rest \<noteq> Inl e"
  using assms
  by (auto simp: parse_args_def split: sum.splits
           dest: resolve_elftype_Inl check_static_caps_Inl)


lemma check_combination_skip:
  "check_combination st rest = Inl Skip_remount_without_mount_ns \<longleftrightarrow>
     \<not> (ambient_caps st \<and> \<not> caps st) \<and>
     \<not> (binding st \<and> \<not> (chroot st \<or> pivot_root st \<or> mount_ns st)) \<and>
     skip_remount st \<and> \<not> mount_ns st"
  by (auto simp: check_combination_def Let_def split: if_splits)

lemma check_combination_Inr:
  "check_combination st rest = Inr st' \<Longrightarrow>
     \<not> (binding st \<and> \<not> (chroot st \<or> pivot_root st \<or> mount_ns st)) \<and>
     \<not> (skip_remount st \<and> \<not> mount_ns st) \<and> \<not> (ambient_caps st \<and> \<not> caps st) \<and> rest \<noteq> []"
  by (auto simp: check_combination_def Let_def split: if_splits)

lemma check_combination_succeeds:
  "\<not> (ambient_caps st \<and> \<not> caps st) \<Longrightarrow>
   \<not> (binding st \<and> \<not> (chroot st \<or> pivot_root st \<or> mount_ns st)) \<Longrightarrow>
   \<not> (skip_remount st \<and> \<not> mount_ns st) \<Longrightarrow> rest \<noteq> [] \<Longrightarrow>
     \<exists>st'. check_combination st rest = Inr st'"
  by (cases "forward st"; cases "use_seccomp_filter st")
     (auto simp: check_combination_def Let_def)

lemma check_combination_skip_rejects:
  "skip_remount st \<Longrightarrow> \<not> mount_ns st \<Longrightarrow>
     \<exists>e. check_combination st rest = Inl e \<and> constraint_violation e"
  by (cases "ambient_caps st \<and> \<not> caps st";
      cases "binding st \<and> \<not> (chroot st \<or> pivot_root st \<or> mount_ns st)")
     (simp_all add: check_combination_def Let_def)


lemma parse_opts_Inl_collect:
  "parse_opts env init_state opts = Inl e \<Longrightarrow> parse_args env opts rest = Inl e"
  by (simp add: parse_args_def collect_options_def)

lemma parse_args_Inl_main: "parse_args env opts rest = Inl e \<Longrightarrow> main env opts rest = Inl e"
  by (simp add: main_def)

subsection \<open>Where the errors of the late checks come from\<close>

lemma set_user_Inl: "set_user env jl a u g = Inl e \<Longrightarrow> \<not> late_error e"
  by (auto simp: set_user_def late_error_def Let_def split: prod.splits if_splits option.splits)

lemma set_group_Inl: "set_group env jl a g = Inl e \<Longrightarrow> \<not> late_error e"
  by (auto simp: set_group_def late_error_def Let_def split: prod.splits if_splits option.splits)

lemma add_binding_Inl: "add_binding env jl a = Inl e \<Longrightarrow> \<not> late_error e"
  by (auto simp: add_binding_def late_error_def Let_def split: list.splits if_splits)

lemma add_rlimit_Inl: "add_rlimit env jl a = Inl e \<Longrightarrow> \<not> late_error e"
  by (auto simp: add_rlimit_def late_error_def Let_def split: list.splits if_splits)

lemma add_mount_Inl: "add_mount env jl a = Inl e \<Longrightarrow> \<not> late_error e"
  by (auto simp: add_mount_def late_error_def Let_def split: list.splits if_splits)

lemma skip_securebits_Inl: "skip_securebits jl a = Inl e \<Longrightarrow> \<not> late_error e"
  by (auto simp: skip_securebits_def late_error_def split: prod.splits if_splits)

lemma use_caps_Inl: "use_caps jl a = Inl e \<Longrightarrow> \<not> late_error e"
  by (auto simp: use_caps_def late_error_def split: prod.splits if_splits)

lemma parse_opt_Inl: "parse_opt env st x = Inl e \<Longrightarrow> \<not> late_error e"
  by (cases x)
     (auto split: sum.splits if_splits option.splits
           dest: set_user_Inl set_group_Inl add_binding_Inl add_rlimit_Inl add_mount_Inl
                 skip_securebits_Inl use_caps_Inl
           simp: late_error_def)

lemma parse_opts_Inl: "parse_opts env st xs = Inl e \<Longrightarrow> \<not> late_error e"
  by (induction xs arbitrary: st) (auto split: sum.splits dest: parse_opt_Inl)

lemma has_cap_setgid_Inl: "has_cap_setgid env = Inl e \<Longrightarrow> \<not> late_error e"
  by (auto simp: has_cap_setgid_def late_error_def split: if_splits option.splits)

lemma build_idmap_Inl: "build_idmap a b = Inl e \<Longrightarrow> \<not> late_error e"
  by (auto simp: build_idmap_def late_error_def Let_def split: if_splits)

lemma set_ugid_mapping_Inl:
  "set_ugid_mapping env jl su u um sg g gm = Inl e \<Longrightarrow> \<not> late_error e"
  by (auto simp: set_ugid_mapping_def Let_def
           split: if_splits sum.splits option.splits
           dest: has_cap_setgid_Inl build_idmap_Inl)
     (simp_all add: late_error_def)

lemma collect_options_Inl: "collect_options env opts = Inl e \<Longrightarrow> \<not> late_error e"
  by (auto simp: collect_options_def setup_logging_def setup_mapping_def
           split: sum.splits if_splits dest: parse_opts_Inl set_ugid_mapping_Inl)
     (simp_all add: late_error_def)

subsection \<open>Capabilities and the linkage of the target\<close>

text \<open>
  C2. Let a capability set be requested with \<^verbatim>\<open>-c\<close> and \<^verbatim>\<open>--ambient\<close> not be given.
  Whenever the options pass every earlier step and check and the target's linkage is
  static (by \<^verbatim>\<open>-T static\<close> or by inspection of the file), \<^verbatim>\<open>parse_args\<close> refuses the
  launch with the error for static targets with capabilities, and so does \<^verbatim>\<open>main\<close>.
  In no case does \<^verbatim>\<open>main\<close> start the target without the preload library.
\<close>

theorem static_caps_without_ambient_rejected:
  assumes "\<exists>x\<in>set opts. is_caps x" and "Opt_ambient \<notin> set opts"
  shows "(collect_options env opts = Inr st2 \<and> check_combination st2 rest = Inr st3 \<and>
            resolve_elftype env st3 rest = Inr st4 \<and> elftype st4 = ELFSTATIC \<longrightarrow>
            parse_args env opts rest = Inl Static_caps_without_ambient \<and>
            main env opts rest = Inl Static_caps_without_ambient) \<and>
         (\<forall>tr status. main env opts rest \<noteq> Inr (DirectExec, tr, status))"
proof (intro conjI impI allI)
  assume h: "collect_options env opts = Inr st2 \<and> check_combination st2 rest = Inr st3 \<and>
               resolve_elftype env st3 rest = Inr st4 \<and> elftype st4 = ELFSTATIC"
  then have c: "collect_options env opts = Inr st2" and k: "check_combination st2 rest = Inr st3"
    and r: "resolve_elftype env st3 rest = Inr st4" and s: "elftype st4 = ELFSTATIC"
    by simp_all
  have "caps st4" "\<not> ambient_caps st4"
    using assms collect_options_flags(1,2) [OF c]
      check_combination_flags [OF k] resolve_elftype_flags [OF r]
    by auto
  then have "check_static_caps st4 = Inl Static_caps_without_ambient"
    using s by (simp add: check_static_caps_def)
  then show p: "parse_args env opts rest = Inl Static_caps_without_ambient"
    using c k r by (simp add: parse_args_def)
  then show "main env opts rest = Inl Static_caps_without_ambient"
    by (simp add: main_def)
next
  fix tr status
  show "main env opts rest \<noteq> Inr (DirectExec, tr, status)"
  proof
    assume "main env opts rest = Inr (DirectExec, tr, status)"
    then obtain st where p: "parse_args env opts rest = Inr st" and s: "elftype st = ELFSTATIC"
      by (blast dest: main_DirectExec)
    from parse_args_Inr_stages [OF p] obtain st2 st3 st4 where
      c: "collect_options env opts = Inr st2" and k: "check_combination st2 rest = Inr st3"
      and r: "resolve_elftype env st3 rest = Inr st4" and f: "check_static_caps st4 = Inr st"
      by blast
    have "caps st4" "\<not> ambient_caps st4"
      using assms collect_options_flags(1,2) [OF c]
        check_combination_flags [OF k] resolve_elftype_flags [OF r]
      by auto
    with check_static_caps_Inr [OF f] s show False by simp
  qed
qed

theorem static_caps_without_ambient_rejected_witness:
  "list_ex is_caps [Opt_c ''1''] \<and> Opt_ambient \<notin> set [Opt_c ''1''] \<and>
   collect_options (plain_env ELFSTATIC) [Opt_c ''1''] =
     Inr (init_state\<lparr>caps := True, j := [Use_caps 1]\<rparr>) \<and>
   check_combination (init_state\<lparr>caps := True, j := [Use_caps 1]\<rparr>) [''prog''] =
     Inr (init_state\<lparr>caps := True, j := [Use_caps 1, Forward_signals]\<rparr>) \<and>
   resolve_elftype (plain_env ELFSTATIC)
       (init_state\<lparr>caps := True, j := [Use_caps 1, Forward_signals]\<rparr>) [''prog''] =
     Inr (init_state\<lparr>caps := True, j := [Use_caps 1, Forward_signals], elftype := ELFSTATIC\<rparr>) \<and>
   parse_args (plain_env ELFSTATIC) [Opt_c ''1''] [''prog''] = Inl Static_caps_without_ambient \<and>
   main (plain_env ELFSTATIC) [Opt_c ''1''] [''prog''] = Inl Static_caps_without_ambient"
proof -
  have h: "\<exists>x\<in>set [Opt_c ''1'']. is_caps x" "Opt_ambient \<notin> set [Opt_c ''1'']"
    by (simp_all add: is_caps_def)
  have c: "collect_options (plain_env ELFSTATIC) [Opt_c ''1''] =
             Inr (init_state\<lparr>caps := True, j := [Use_caps 1]\<rparr>)"
    by (simp add: stage_defs plain_env_fields use_caps_1)
  have k: "check_combination (init_state\<lparr>caps := True, j := [Use_caps 1]\<rparr>) [''prog''] =
             Inr (init_state\<lparr>caps := True, j := [Use_caps 1, Forward_signals]\<rparr>)"
    by (simp add: stage_defs)
  have r: "resolve_elftype (plain_env ELFSTATIC)
               (init_state\<lparr>caps := True, j := [Use_caps 1, Forward_signals]\<rparr>) [''prog''] =
             Inr (init_state\<lparr>caps := True, j := [Use_caps 1, Forward_signals],
                    elftype := ELFSTATIC\<rparr>)"
    by (simp add: stage_defs plain_env_fields)
  have s: "elftype (init_state\<lparr>caps := True, j := [Use_caps 1, Forward_signals],
                      elftype := ELFSTATIC\<rparr>) = ELFSTATIC"
    by simp
  from static_caps_without_ambient_rejected [OF h, THEN conjunct1, rule_format, OF conjI [OF c conjI [OF k conjI [OF r s]]]]
  show ?thesis
    using h c k r by (simp add: list_ex_iff)
qed

text \<open>
  C1 as stated fails: with \<^verbatim>\<open>-c 0x1 --ambient\<close> and a static target the launch is
  not refused, but it goes through \<^verbatim>\<open>minijail_run_no_preload\<close>, not through the
  preload path.
\<close>

theorem caps_ambient_static_counterexample:
  "main (plain_env ELFSTATIC) [Opt_c ''0x1'', Opt_ambient] [''prog''] =
     Inr (DirectExec,
          [Use_caps 1, Set_ambient_caps, Forward_signals, Run_no_preload ''prog'' [''prog'']], 0)"
  by (simp add: main_def parse_args_def stage_defs plain_env_fields use_caps_0x1)

text \<open>
  C1 (as amended). For the options \<^verbatim>\<open>-c 0x1 --ambient\<close> and a target that is
  executable and statically linked, the launch is not refused and the target is
  started directly, without the preload library.
\<close>

theorem caps_ambient_static_direct_exec:
  assumes "get_elf_linkage env
             (get_original_path env [Use_caps 1, Set_ambient_caps, Forward_signals] prog) = ELFSTATIC"
    and "access_x_ok env (get_original_path env [Use_caps 1, Set_ambient_caps, Forward_signals] prog)"
    and "setpgid env \<noteq> Setpgid_error"
  shows "main env [Opt_c ''0x1'', Opt_ambient] (prog # args) =
           Inr (DirectExec,
                [Use_caps 1, Set_ambient_caps, Forward_signals, Run_no_preload prog (prog # args)],
                wait_status env
                  [Use_caps 1, Set_ambient_caps, Forward_signals, Run_no_preload prog (prog # args)])"
  using assms
  by (simp add: main_def parse_args_def stage_defs use_caps_0x1)

theorem caps_ambient_static_direct_exec_witness:
  "get_elf_linkage (plain_env ELFSTATIC)
     (get_original_path (plain_env ELFSTATIC)
        [Use_caps 1, Set_ambient_caps, Forward_signals] ''prog'') = ELFSTATIC \<and>
   access_x_ok (plain_env ELFSTATIC)
     (get_original_path (plain_env ELFSTATIC)
        [Use_caps 1, Set_ambient_caps, Forward_signals] ''prog'') \<and>
   setpgid (plain_env ELFSTATIC) \<noteq> Setpgid_error \<and>
   main (plain_env ELFSTATIC) [Opt_c ''0x1'', Opt_ambient] [''prog'', ''arg''] =
     Inr (DirectExec,
          [Use_caps 1, Set_ambient_caps, Forward_signals, Run_no_preload ''prog'' [''prog'', ''arg'']],
          0)"
  using caps_ambient_static_direct_exec [of "plain_env ELFSTATIC" "''prog''" "[''arg'']"]
  by (simp add: plain_env_fields)

subsection \<open>Mount namespace, bind mounts, chroot and pivot root\<close>

text \<open>
  The check on \<^verbatim>\<open>-K\<close>, the request to skip marking the mounts private, reads the
  variable \<^verbatim>\<open>mount_ns\<close>, which the case of \<^verbatim>\<open>-v\<close> alone sets. Without \<^verbatim>\<open>-v\<close> an
  invocation with \<^verbatim>\<open>-K\<close> never succeeds, and once the options are collected it is
  refused with a constraint violation. With \<^verbatim>\<open>-v\<close> it is never refused for the skip
  request, and the checks on the combination of options succeed when \<^verbatim>\<open>--ambient\<close>
  comes with \<^verbatim>\<open>-c\<close> and a program is named.
\<close>

lemma skip_remount_reads_mount_ns_flag:
  assumes "Opt_K \<in> set opts"
  shows "(Opt_v \<notin> set opts \<longrightarrow>
            (\<forall>st'. parse_args env opts rest \<noteq> Inr st') \<and>
            (\<forall>st. collect_options env opts = Inr st \<longrightarrow>
               (\<exists>e. parse_args env opts rest = Inl e \<and> constraint_violation e))) \<and>
         (Opt_v \<in> set opts \<longrightarrow> parse_args env opts rest \<noteq> Inl Skip_remount_without_mount_ns) \<and>
         (Opt_v \<in> set opts \<and> collect_options env opts = Inr st0 \<and>
            (Opt_ambient \<in> set opts \<longrightarrow> (\<exists>x\<in>set opts. is_caps x)) \<and> rest \<noteq> [] \<longrightarrow>
            (\<exists>st'. check_combination st0 rest = Inr st'))"
proof (intro conjI impI allI)
  assume h: "Opt_v \<in> set opts \<and> collect_options env opts = Inr st0 \<and>
            (Opt_ambient \<in> set opts \<longrightarrow> (\<exists>x\<in>set opts. is_caps x)) \<and> rest \<noteq> []"
  then have c: "collect_options env opts = Inr st0" by simp
  show "\<exists>st'. check_combination st0 rest = Inr st'"
    using h by (intro check_combination_succeeds) (simp_all add: collect_options_flags [OF c])
next
  fix st' assume nv: "Opt_v \<notin> set opts"
  show "parse_args env opts rest \<noteq> Inr st'"
  proof
    assume "parse_args env opts rest = Inr st'"
    then obtain st2 st3 where c: "collect_options env opts = Inr st2"
      and k: "check_combination st2 rest = Inr st3"
      by (blast dest: parse_args_Inr)
    from check_combination_Inr [OF k] collect_options_flags(6,7) [OF c] assms nv
    show False by simp
  qed
next
  fix st assume nv: "Opt_v \<notin> set opts" and c: "collect_options env opts = Inr st"
  have "skip_remount st" "\<not> mount_ns st"
    using collect_options_flags(6,7) [OF c] assms nv by simp_all
  then obtain e where e: "check_combination st rest = Inl e" "constraint_violation e"
    by (blast dest: check_combination_skip_rejects)
  then show "\<exists>e. parse_args env opts rest = Inl e \<and> constraint_violation e"
    using parse_args_after_collect(1) [OF c] by blast
next
  assume v: "Opt_v \<in> set opts"
  show "parse_args env opts rest \<noteq> Inl Skip_remount_without_mount_ns"
  proof (cases "collect_options env opts")
    case (Inr st)
    have "mount_ns st" using collect_options_flags(6) [OF Inr] v by simp
    then have "check_combination st rest \<noteq> Inl Skip_remount_without_mount_ns"
      by (simp add: check_combination_skip)
    then show ?thesis
      by (rule parse_args_after_collect(2) [OF Inr]) simp_all
  next
    case (Inl e)
    then show ?thesis
      using collect_options_Inl [OF Inl] by (auto simp: parse_args_def late_error_def)
  qed
qed






text \<open>
  C6. Options that contain both a chroot (\<^verbatim>\<open>-C\<close>) and a pivot root (\<^verbatim>\<open>-P\<close>) are
  always refused, by \<^verbatim>\<open>parse_args\<close> and by \<^verbatim>\<open>main\<close>. When the loop reaches the later
  of the two, the error is the one that names the conflict, in either order.
\<close>

theorem chroot_pivot_root_exclusive:
  assumes "\<exists>x\<in>set opts. is_chroot x" and "\<exists>x\<in>set opts. is_pivot_root x"
  shows "(\<exists>e. parse_args env opts rest = Inl e \<and> main env opts rest = Inl e) \<and>
         (opts = pre @ Opt_P a # post \<and> (\<exists>x\<in>set pre. is_chroot x) \<and>
              parse_opts env init_state pre = Inr st \<longrightarrow>
              parse_args env opts rest = Inl Pivot_root_after_chroot) \<and>
         (opts = pre @ Opt_C a # post \<and> (\<exists>x\<in>set pre. is_pivot_root x) \<and>
              parse_opts env init_state pre = Inr st \<longrightarrow>
              parse_args env opts rest = Inl Chroot_after_pivot_root) \<and>
         constraint_violation Pivot_root_after_chroot \<and>
         constraint_violation Chroot_after_pivot_root"
proof (intro conjI impI)
  show "\<exists>e. parse_args env opts rest = Inl e \<and> main env opts rest = Inl e"
  proof (cases "parse_opts env init_state opts")
    case (Inl e)
    then show ?thesis
      by (blast intro: parse_opts_Inl_collect parse_args_Inl_main)
  next
    case (Inr st)
    have "chroot st \<and> pivot_root st"
      using parse_opts_flags [OF Inr] assms by simp
    moreover have "\<not> (chroot st \<and> pivot_root st)"
      by (rule parse_opts_exclusive [OF Inr]) (simp add: init_state_def)
    ultimately show ?thesis by contradiction
  qed
next
  assume h: "opts = pre @ Opt_P a # post \<and> (\<exists>x\<in>set pre. is_chroot x) \<and>
               parse_opts env init_state pre = Inr st"
  then have "chroot st"
    using parse_opts_flags [of env init_state pre st] by simp
  then have "parse_opts env init_state opts = Inl Pivot_root_after_chroot"
    using h by (simp add: parse_opts_append)
  then show "parse_args env opts rest = Inl Pivot_root_after_chroot"
    by (rule parse_opts_Inl_collect)
next
  assume h: "opts = pre @ Opt_C a # post \<and> (\<exists>x\<in>set pre. is_pivot_root x) \<and>
               parse_opts env init_state pre = Inr st"
  then have "pivot_root st"
    using parse_opts_flags [of env init_state pre st] by simp
  then have "parse_opts env init_state opts = Inl Chroot_after_pivot_root"
    using h by (simp add: parse_opts_append)
  then show "parse_args env opts rest = Inl Chroot_after_pivot_root"
    by (rule parse_opts_Inl_collect)
qed simp_all

theorem chroot_pivot_root_exclusive_witness:
  "parse_args (plain_env ELFDYNAMIC) [Opt_C ''/r'', Opt_v, Opt_P ''/q''] [''prog''] =
     Inl Pivot_root_after_chroot \<and>
   parse_args (plain_env ELFDYNAMIC) [Opt_P ''/q'', Opt_v, Opt_C ''/r''] [''prog''] =
     Inl Chroot_after_pivot_root"
proof -
  have a: "parse_opts (plain_env ELFDYNAMIC) init_state [Opt_C ''/r'', Opt_v] =
             Inr (init_state\<lparr>j := [Enter_chroot ''/r'', Namespace_vfs], chroot := True, mount_ns := True\<rparr>)"
    by (simp add: init_state_def plain_env_fields)
  have b: "parse_opts (plain_env ELFDYNAMIC) init_state [Opt_P ''/q'', Opt_v] =
             Inr (init_state\<lparr>j := [Enter_pivot_root ''/q'', Namespace_vfs, Namespace_vfs],
                    pivot_root := True, mount_ns := True\<rparr>)"
    by (simp add: init_state_def plain_env_fields)
  have "parse_args (plain_env ELFDYNAMIC) [Opt_C ''/r'', Opt_v, Opt_P ''/q''] [''prog''] =
          Inl Pivot_root_after_chroot"
    using chroot_pivot_root_exclusive
            [where opts = "[Opt_C ''/r'', Opt_v, Opt_P ''/q'']" and env = "plain_env ELFDYNAMIC"
               and rest = "[''prog'']" and pre = "[Opt_C ''/r'', Opt_v]" and a = "''/q''"
               and post = "[]"] a
    by (simp add: opt_kind_defs)
  moreover
  have "parse_args (plain_env ELFDYNAMIC) [Opt_P ''/q'', Opt_v, Opt_C ''/r''] [''prog''] =
          Inl Chroot_after_pivot_root"
    using chroot_pivot_root_exclusive
            [where opts = "[Opt_P ''/q'', Opt_v, Opt_C ''/r'']" and env = "plain_env ELFDYNAMIC"
               and rest = "[''prog'']" and pre = "[Opt_P ''/q'', Opt_v]" and a = "''/r''"
               and post = "[]"] b
    by (simp add: opt_kind_defs)
  ultimately show ?thesis by simp
qed

subsection \<open>The id-map calls of an invocation\<close>

lemma set_user_calls:
  "set_user env jl a u g = Inr (jl', u', g') \<Longrightarrow>
     \<exists>cs. jl' = jl @ cs \<and> filter is_idmap_call cs = []"
  by (auto simp: set_user_def is_idmap_call_def Let_def split: prod.splits if_splits option.splits)

lemma set_group_calls:
  "set_group env jl a g = Inr (jl', g') \<Longrightarrow>
     \<exists>cs. jl' = jl @ cs \<and> filter is_idmap_call cs = []"
  by (auto simp: set_group_def is_idmap_call_def Let_def split: prod.splits if_splits option.splits)

lemma add_binding_calls:
  "add_binding env jl a = Inr jl' \<Longrightarrow> \<exists>cs. jl' = jl @ cs \<and> filter is_idmap_call cs = []"
  by (auto simp: add_binding_def is_idmap_call_def Let_def split: list.splits if_splits)

lemma add_rlimit_calls:
  "add_rlimit env jl a = Inr jl' \<Longrightarrow> \<exists>cs. jl' = jl @ cs \<and> filter is_idmap_call cs = []"
  by (auto simp: add_rlimit_def is_idmap_call_def Let_def split: list.splits if_splits)

lemma add_mount_calls:
  "add_mount env jl a = Inr jl' \<Longrightarrow> \<exists>cs. jl' = jl @ cs \<and> filter is_idmap_call cs = []"
  by (auto simp: add_mount_def is_idmap_call_def Let_def split: list.splits if_splits)

lemma skip_securebits_calls:
  "skip_securebits jl a = Inr jl' \<Longrightarrow> \<exists>cs. jl' = jl @ cs \<and> filter is_idmap_call cs = []"
  by (auto simp: skip_securebits_def is_idmap_call_def split: prod.splits if_splits)

lemma use_caps_calls:
  "use_caps jl a = Inr jl' \<Longrightarrow> \<exists>cs. jl' = jl @ cs \<and> filter is_idmap_call cs = []"
  by (auto simp: use_caps_def is_idmap_call_def split: prod.splits if_splits)

lemma parse_opt_calls:
  "parse_opt env st x = Inr st' \<Longrightarrow>
     filter is_idmap_call (j st') = filter is_idmap_call (j st)"
  by (cases x)
     (auto split: sum.splits if_splits option.splits prod.splits
           dest!: set_user_calls set_group_calls add_binding_calls add_rlimit_calls
                  add_mount_calls skip_securebits_calls use_caps_calls
           simp: is_idmap_call_def)

lemma parse_opts_calls:
  "parse_opts env st xs = Inr st' \<Longrightarrow>
     filter is_idmap_call (j st') = filter is_idmap_call (j st)"
  by (induction xs arbitrary: st) (auto split: sum.splits dest: parse_opt_calls)

lemma setup_logging_calls:
  "setup_logging env st = Inr st' \<Longrightarrow>
     filter is_idmap_call (j st') = filter is_idmap_call (j st)"
  by (auto simp: setup_logging_def is_idmap_call_def split: if_splits)

text \<open>The map that \<^verbatim>\<open>set_ugid_mapping\<close> hands to the jail: the one given, or the default.\<close>

lemma set_ugid_mapping_calls:
  assumes "set_ugid_mapping env jl su u um sg g gm = Inr jl'"
  shows "\<exists>cs. jl' = jl @ cs \<and>
           filter is_idmap_call cs =
             (if su then [Uidmap (case um of Some m \<Rightarrow> m | None \<Rightarrow> projr (build_idmap u (getuid env)))]
              else []) @
             (if sg then
                (if has_cap_setgid env = Inr True then [] else [Namespace_user_disable_setgroups]) @
                [Gidmap (case gm of Some m \<Rightarrow> m | None \<Rightarrow> projr (build_idmap g (getgid env)))]
              else [])"
  using assms
  by (auto simp: set_ugid_mapping_def Let_def is_idmap_call_def
           split: if_splits sum.splits option.splits)

lemma length_dec: "n < 10 ^ k \<Longrightarrow> 0 < k \<Longrightarrow> length (dec n) \<le> k"
proof (induction n arbitrary: k rule: dec.induct)
  case (1 n)
  show ?case
  proof (cases "n < 10")
    case True
    then show ?thesis using "1.prems" by (simp add: dec.simps)
  next
    case False
    then obtain k' where k: "k = Suc k'" and "0 < k'"
      using "1.prems" by (cases k; cases "k - 1") auto
    then have "n div 10 < 10 ^ k'"
      using "1.prems" by (simp add: less_mult_imp_div_less mult.commute)
    from "1.IH" [OF False this \<open>0 < k'\<close>] show ?thesis
      using False k by (simp add: dec.simps [of n])
  qed
qed

lemma length_printf_d: "- (2 ^ 31) \<le> i \<Longrightarrow> i < 2 ^ 31 \<Longrightarrow> length (printf_d i) \<le> 11"
proof -
  assume a: "- (2 ^ 31) \<le> i" "i < 2 ^ 31"
  have "nat \<bar>i\<bar> < 10 ^ 10" using a by simp
  then have "length (dec (nat \<bar>i\<bar>)) \<le> 10" by (rule length_dec) simp
  then show ?thesis by (auto simp: printf_d_def abs_if)
qed

lemma build_idmap_total:
  "build_idmap a b =
     Inr (printf_d (sint a) @ '' '' @ printf_d (sint b) @ '' 1'')"
proof -
  have "length (printf_d (sint a)) \<le> 11" "length (printf_d (sint b)) \<le> 11"
    using sint_range_size [of a] sint_range_size [of b]
    by (auto intro!: length_printf_d simp: word_size)
  then show ?thesis by (simp add: build_idmap_def IDMAP_LEN_def)
qed

lemma sint_small: "unat (w :: 32 word) < 2 ^ 31 \<Longrightarrow> sint w = int (unat w)"
proof -
  assume "unat w < 2 ^ 31"
  then have "int (unat w) < int (2 ^ 31)" by (simp only: of_nat_less_iff)
  then have lt: "uint w < 2 ^ 31" by (simp only: uint_nat of_nat_power of_nat_numeral)
  have ge: "- (2 ^ 31) \<le> uint w"
    by (rule order_trans [of _ 0]) simp_all
  have "signed_take_bit 31 (uint w) = uint w"
    using ge lt by (rule signed_take_bit_int_eq_self)
  then have "sint w = uint w" by (simp only: sint_uint) simp
  then show ?thesis by (simp only: uint_nat)
qed

lemma printf_d_small: "unat (w :: 32 word) < 2 ^ 31 \<Longrightarrow> printf_d (sint w) = dec (unat w)"
  by (simp add: sint_small printf_d_def)

lemma build_idmap_small:
  "unat a < 2 ^ 31 \<Longrightarrow> unat b < 2 ^ 31 \<Longrightarrow>
     build_idmap a b = Inr (dec (unat a) @ '' '' @ dec (unat b) @ '' 1'')"
  by (simp add: build_idmap_total printf_d_small)

lemma collect_options_idmap_calls:
  assumes "collect_options env opts = Inr st"
  shows "filter is_idmap_call (j st) =
           (if uidmap_args opts \<noteq> [] then
              [Uidmap (case last (uidmap_args opts) of
                         Some m \<Rightarrow> m
                       | None \<Rightarrow> projr (build_idmap (uid st) (getuid env)))]
            else []) @
           (if gidmap_args opts \<noteq> [] then
              (if has_cap_setgid env = Inr True then [] else [Namespace_user_disable_setgroups]) @
              [Gidmap (case last (gidmap_args opts) of
                         Some m \<Rightarrow> m
                       | None \<Rightarrow> projr (build_idmap (gid st) (getgid env)))]
            else [])"
proof -
  from assms obtain s0 s1 where
    loop: "parse_opts env init_state opts = Inr s0" and
    lg: "setup_logging env s0 = Inr s1" and mp: "setup_mapping env s1 = Inr st"
    by (auto simp: collect_options_Inr)
  note a = same_vars_fields [OF setup_logging_state [OF lg]]
  note b = same_vars_fields [OF setup_mapping_state [OF mp]]
  have m: "set_uidmap s1 = (uidmap_args opts \<noteq> [])"
      "set_gidmap s1 = (gidmap_args opts \<noteq> [])"
      "uidmap_args opts \<noteq> [] \<Longrightarrow> uidmap s1 = last (uidmap_args opts)"
      "gidmap_args opts \<noteq> [] \<Longrightarrow> gidmap s1 = last (gidmap_args opts)"
      "uid s1 = uid st" "gid s1 = gid st"
    using parse_opts_maps [OF loop] by (simp_all add: a b init_state_def)
  have none: "filter is_idmap_call (j s1) = []"
    using parse_opts_calls [OF loop] setup_logging_calls [OF lg] by (simp add: init_state_def)
  show ?thesis
  proof (cases "set_uidmap s1 \<or> set_gidmap s1")
    case False
    then have "st = s1" using mp by (simp add: setup_mapping_def)
    then show ?thesis using False none m(1,2) by simp
  next
    case True
    then have "set_ugid_mapping env (j s1) (set_uidmap s1) (uid s1) (uidmap s1)
                 (set_gidmap s1) (gid s1) (gidmap s1) = Inr (j st)"
      using mp by (auto simp: setup_mapping_def split: sum.splits)
    from set_ugid_mapping_calls [OF this] obtain cs where
      cs: "j st = j s1 @ cs" and
      f: "filter is_idmap_call cs =
            (if set_uidmap s1 then
               [Uidmap (case uidmap s1 of Some m \<Rightarrow> m
                        | None \<Rightarrow> projr (build_idmap (uid s1) (getuid env)))]
             else []) @
            (if set_gidmap s1 then
               (if has_cap_setgid env = Inr True then [] else [Namespace_user_disable_setgroups]) @
               [Gidmap (case gidmap s1 of Some m \<Rightarrow> m
                        | None \<Rightarrow> projr (build_idmap (gid s1) (getgid env)))]
             else [])"
      by blast
    show ?thesis
      by (simp only: cs filter_append none append_Nil f m(1,2,5,6))
         (use m(3,4) in auto)
  qed
qed

lemma set_ugid_mapping_gid_tail:
  "set_ugid_mapping env jl su u um True g gm = Inr jl' \<Longrightarrow>
     (has_cap_setgid env = Inr False \<and>
        (\<exists>pre m. jl' = pre @ [Namespace_user_disable_setgroups, Gidmap m])) \<or>
     (has_cap_setgid env = Inr True \<and> (\<exists>pre m. jl' = pre @ [Gidmap m]))"
  by (auto simp: set_ugid_mapping_def Let_def split: if_splits sum.splits option.splits)

lemma has_cap_setgid_True:
  "has_cap_setgid env = Inr True \<longleftrightarrow>
     cap_setgid_supported env \<and> cap_get_proc env \<and> cap_get_flag env = Some True \<and> cap_free env"
  by (auto simp: has_cap_setgid_def split: option.splits)

text \<open>
  C7. Take an invocation whose options are collected without an error. If it applies a
  gid map (a \<^verbatim>\<open>-M\<close> option), the capability probe has returned: when it reports that
  \<^verbatim>\<open>CAP_SETGID\<close> is not effective (or not supported), the call that disables
  \<^verbatim>\<open>setgroups\<close> comes immediately before the gid-map call; when it reports the
  capability as held, that call is made nowhere in the invocation. Without a gid map
  that call is not made either.
\<close>

theorem gidmap_disables_setgroups_without_cap_setgid:
  assumes "collect_options env opts = Inr st"
  shows "(gidmap_args opts \<noteq> [] \<longrightarrow>
            (has_cap_setgid env = Inr False \<and>
               (\<exists>pre m. j st = pre @ [Namespace_user_disable_setgroups, Gidmap m])) \<or>
            (has_cap_setgid env = Inr True \<and> cap_get_flag env = Some True \<and>
               Namespace_user_disable_setgroups \<notin> set (j st) \<and>
               (\<exists>pre m. j st = pre @ [Gidmap m]))) \<and>
         (gidmap_args opts = [] \<longrightarrow> Namespace_user_disable_setgroups \<notin> set (j st))"
proof (intro conjI impI)
  have mem: "Namespace_user_disable_setgroups \<in> set (j st) \<longleftrightarrow>
               Namespace_user_disable_setgroups \<in> set (filter is_idmap_call (j st))"
    by (simp add: is_idmap_call_def)
  {
    assume "gidmap_args opts = []"
    then show "Namespace_user_disable_setgroups \<notin> set (j st)"
      by (simp only: mem collect_options_idmap_calls [OF assms]) (simp split: if_splits)
  }
  assume m: "gidmap_args opts \<noteq> []"
  from assms obtain s0 s1 where
    loop: "parse_opts env init_state opts = Inr s0" and
    lg: "setup_logging env s0 = Inr s1" and mp: "setup_mapping env s1 = Inr st"
    by (auto simp: collect_options_Inr)
  have "set_gidmap s1"
    using parse_opts_maps [OF loop] m
    by (simp add: same_vars_fields [OF setup_logging_state [OF lg]])
  then have "set_ugid_mapping env (j s1) (set_uidmap s1) (uid s1) (uidmap s1)
               True (gid s1) (gidmap s1) = Inr (j st)"
    using mp by (auto simp: setup_mapping_def split: sum.splits)
  from set_ugid_mapping_gid_tail [OF this]
  show "(has_cap_setgid env = Inr False \<and>
           (\<exists>pre m. j st = pre @ [Namespace_user_disable_setgroups, Gidmap m])) \<or>
        (has_cap_setgid env = Inr True \<and> cap_get_flag env = Some True \<and>
           Namespace_user_disable_setgroups \<notin> set (j st) \<and>
           (\<exists>pre m. j st = pre @ [Gidmap m]))"
  proof
    assume "has_cap_setgid env = Inr False \<and>
              (\<exists>pre m. j st = pre @ [Namespace_user_disable_setgroups, Gidmap m])"
    then show ?thesis by blast
  next
    assume held: "has_cap_setgid env = Inr True \<and> (\<exists>pre m. j st = pre @ [Gidmap m])"
    have "Namespace_user_disable_setgroups \<notin> set (j st)"
      using held m
      by (simp only: mem collect_options_idmap_calls [OF assms]) (simp split: if_splits)
    then show ?thesis
      using held by (simp add: has_cap_setgid_True)
  qed
qed

lemma collect_gidmap_unprivileged:
  "collect_options (plain_env ELFDYNAMIC) [Opt_M None] =
     Inr (init_state\<lparr>set_gidmap := True,
            j := [Namespace_user, Namespace_pids, Namespace_user_disable_setgroups,
                  Gidmap ''0 1000 1'']\<rparr>)"
  by (simp add: stage_defs set_ugid_mapping_def has_cap_setgid_def build_idmap_def
        printf_d_def dec.simps IDMAP_LEN_def plain_env_fields)

lemma collect_gidmap_privileged:
  "collect_options ((plain_env ELFDYNAMIC)\<lparr>cap_get_flag := Some True\<rparr>) [Opt_M None] =
     Inr (init_state\<lparr>set_gidmap := True,
            j := [Namespace_user, Namespace_pids, Gidmap ''0 1000 1'']\<rparr>)"
  by (simp add: stage_defs set_ugid_mapping_def has_cap_setgid_def build_idmap_def
        printf_d_def dec.simps IDMAP_LEN_def plain_env_def)

theorem gidmap_disables_setgroups_without_cap_setgid_witness:
  "collect_options (plain_env ELFDYNAMIC) [Opt_M None] =
     Inr (init_state\<lparr>set_gidmap := True,
            j := [Namespace_user, Namespace_pids, Namespace_user_disable_setgroups,
                  Gidmap ''0 1000 1'']\<rparr>) \<and>
   gidmap_args [Opt_M None] \<noteq> [] \<and>
   has_cap_setgid (plain_env ELFDYNAMIC) = Inr False \<and>
   (\<exists>pre m. [Namespace_user, Namespace_pids, Namespace_user_disable_setgroups, Gidmap ''0 1000 1'']
      = pre @ [Namespace_user_disable_setgroups, Gidmap m]) \<and>
   collect_options ((plain_env ELFDYNAMIC)\<lparr>cap_get_flag := Some True\<rparr>) [Opt_M None] =
     Inr (init_state\<lparr>set_gidmap := True,
            j := [Namespace_user, Namespace_pids, Gidmap ''0 1000 1'']\<rparr>) \<and>
   has_cap_setgid ((plain_env ELFDYNAMIC)\<lparr>cap_get_flag := Some True\<rparr>) = Inr True \<and>
   Namespace_user_disable_setgroups \<notin> set [Namespace_user, Namespace_pids, Gidmap ''0 1000 1'']"
  using gidmap_disables_setgroups_without_cap_setgid [OF collect_gidmap_unprivileged]
    gidmap_disables_setgroups_without_cap_setgid [OF collect_gidmap_privileged]
    collect_gidmap_unprivileged collect_gidmap_privileged
  by (simp add: has_cap_setgid_def plain_env_def)

subsection \<open>Numeric user and group specifiers\<close>








lemmas double_to_int_defs = double_to_int_def trunc_double_def










lemma set_user_value:
  "strtod arg = (d, []) \<Longrightarrow> arg \<noteq> [] \<Longrightarrow> double_to_int d = i \<Longrightarrow>
     set_user env jl arg u g = Inr (jl @ [Change_uid (word_of_int i)], word_of_int i, g)"
  by (simp add: set_user_def Let_def)


lemma set_user_by_name:
  "arg = [] \<or> snd (strtod arg) \<noteq> [] \<Longrightarrow> set_user env jl arg u g = Inr (jl', u', g') \<Longrightarrow>
     lookup_user env arg = Some (u', g')"
  by (auto simp: set_user_def Let_def split: prod.splits option.splits if_splits)



lemma bitlen_bounds: "0 < n \<Longrightarrow> 2 ^ (bitlen n - 1) \<le> n \<and> n < 2 ^ bitlen n"
proof (induction n rule: bitlen.induct)
  case (1 n)
  show ?case
  proof (cases "n div 2 = 0")
    case True
    with "1.prems" have "n = 1" by (cases n) auto
    then show ?thesis by (simp add: bitlen.simps)
  next
    case False
    then have pos: "0 < n div 2" by simp
    from "1.prems" have n0: "n \<noteq> 0" by simp
    from "1.IH" [OF n0 pos] have
      lo: "2 ^ (bitlen (n div 2) - 1) \<le> n div 2" and hi: "n div 2 < 2 ^ bitlen (n div 2)"
      by simp_all
    have b: "bitlen n = Suc (bitlen (n div 2))"
      using n0 by (simp add: bitlen.simps [of n])
    have bpos: "0 < bitlen (n div 2)"
      using pos by (simp add: bitlen.simps [of "n div 2"])
    have "2 * 2 ^ (bitlen (n div 2) - 1) \<le> 2 * (n div 2)" using lo by simp
    also have "\<dots> \<le> n" by simp
    finally have l: "2 ^ (bitlen n - 1) \<le> n"
      using bpos by (simp add: b power_Suc [symmetric] del: power_Suc)
    have "n < 2 * (n div 2) + 2" by presburger
    also have "\<dots> \<le> 2 * 2 ^ bitlen (n div 2)" using hi by simp
    finally have h: "n < 2 ^ bitlen n" by (simp add: b)
    from l h show ?thesis ..
  qed
qed

lemma bitlen_le: "n < 2 ^ k \<Longrightarrow> bitlen n \<le> k"
proof (cases "n = 0")
  case True
  then show ?thesis by (simp add: bitlen.simps)
next
  case False
  assume "n < 2 ^ k"
  moreover have "2 ^ (bitlen n - 1) \<le> n" using bitlen_bounds False by simp
  ultimately have "(2::nat) ^ (bitlen n - 1) < 2 ^ k" by (rule le_less_trans [rotated])
  then have "bitlen n - 1 < k" by (rule power_less_imp_less_exp [rotated]) simp
  then show ?thesis by simp
qed

lemma bitlen_Suc_0: "bitlen (Suc 0) = Suc 0"
  by (simp add: bitlen.simps)

lemma round_half_even_Suc_0: "round_half_even a (Suc 0) = a"
  by (simp add: round_half_even_def)

lemma to_double_nat:
  assumes "n < 2 ^ 31"
  shows "double_to_int (to_double False n 1) = int n"
proof (cases "n = 0")
  case True
  then show ?thesis by (simp add: to_double_def double_to_int_defs)
next
  case False
  define d where "d = int (bitlen n) - 1"
  have bpos: "0 < bitlen n" using False by (simp add: bitlen.simps [of n])
  have d0: "0 \<le> d" using bpos by (simp add: d_def)
  have d30: "d \<le> 30" using bitlen_le [OF assms] by (simp add: d_def)
  have nd: "nat d = bitlen n - 1" by (simp add: d_def)
  have lo: "2 ^ nat d \<le> n" using bitlen_bounds False by (simp add: nd)
  have k: "max (d - 52) (- 1074) = d - 52" using d0 by simp
  have kneg: "\<not> 0 \<le> d - 52" using d30 by simp
  have td: "to_double False n 1 = Dbl False (n * 2 ^ nat (52 - d)) (d - 52)"
    using False d0 lo kneg
    by (simp add: to_double_def Let_def bitlen_Suc_0 d_def [symmetric] k round_half_even_Suc_0)
  show ?thesis
    unfolding td using kneg assms by (simp add: double_to_int_defs)
qed

lemma isdigit_props:
  assumes "isdigit c"
  shows "\<not> isspace c" "c \<noteq> CHR ''-''" "c \<noteq> CHR ''+''" "is_digit_of 10 c" "is_digit_of 16 c"
    "c \<noteq> CHR ''x''" "c \<noteq> CHR ''X''" "c \<noteq> CHR ''.''"
  using assms
  by (auto simp: isdigit_def isspace_def is_digit_of_def digit_val_def Let_def)

lemma tolower_x: "tolower c = CHR ''x'' \<longleftrightarrow> c = CHR ''x'' \<or> c = CHR ''X''"
  by (cases c) (auto simp: Let_def)

lemma digits_not_hex_prefix:
  assumes "\<forall>c\<in>set s. isdigit c"
  shows "\<not> has_prefix_ci ''0x'' s"
proof
  assume "has_prefix_ci ''0x'' s"
  then obtain a b r where s: "s = a # b # r" and "tolower b = CHR ''x''"
    by (cases s; cases "tl s") (auto simp: has_prefix_ci_def)
  then have "b = CHR ''x'' \<or> b = CHR ''X''" by (simp add: tolower_x)
  moreover have "isdigit b" using assms s by simp
  ultimately show False using isdigit_props(6,7) by blast
qed

lemma strtod_digits:
  assumes "arg \<noteq> []" and "\<forall>c\<in>set arg. isdigit c"
  shows "strtod arg = (to_double False (digits_val 10 arg) 1, [])"
proof -
  obtain c cs where arg: "arg = c # cs" using assms(1) by (cases arg) auto
  have c: "isdigit c" using assms(2) arg by simp
  have ws: "dropWhile isspace arg = arg"
    using isdigit_props(1) [OF c] by (simp add: arg)
  have sg: "take_sign arg = (False, arg)"
    using isdigit_props(2,3) [OF c] by (simp add: arg)
  have hx: "scan_hex False arg = None"
    using digits_not_hex_prefix [OF assms(2)] by (simp add: scan_hex_def)
  have all10: "\<forall>c\<in>set arg. is_digit_of 10 c"
    using assms(2) isdigit_props(4) by blast
  have tw: "takeWhile (is_digit_of 10) arg = arg" "dropWhile (is_digit_of 10) arg = []"
    using all10 by (simp_all add: takeWhile_eq_all_conv)
  have mn: "scan_mantissa 10 arg = Some (arg, [], [])"
    using assms(1) by (simp add: scan_mantissa_def tw)
  have dc: "scan_decimal False arg = Some (to_double False (digits_val 10 arg) 1, [])"
    by (simp add: scan_decimal_def mn scan_exponent_def)
  show ?thesis
    by (simp add: strtod_def ws sg hx dc)
qed

lemma set_user_digits:
  assumes "arg \<noteq> []" and "\<forall>c\<in>set arg. isdigit c" and "digits_val 10 arg < 2 ^ 31"
  shows "set_user env jl arg u g =
           Inr (jl @ [Change_uid (of_nat (digits_val 10 arg))], of_nat (digits_val 10 arg), g)"
proof -
  have "strtod arg = (to_double False (digits_val 10 arg) 1, [])"
    using assms(1,2) by (rule strtod_digits)
  from set_user_value [OF this assms(1) to_double_nat [OF assms(3)]] show ?thesis
    by simp
qed













subsection \<open>The default uid map\<close>

text \<open>The target id after the loop is the one the last \<^verbatim>\<open>-u\<close> option gave.\<close>

lemma parse_opts_last_user:
  assumes "parse_opts env st (pre @ Opt_u a # post) = Inr st'"
    and "\<forall>x\<in>set post. \<not> is_user x"
  shows "\<exists>(s :: pstate) jl g. set_user env (j s) a (uid s) (gid s) = Inr (jl, uid st', g)"
proof -
  from assms(1) obtain s where
    tl: "parse_opts env s (Opt_u a # post) = Inr st'"
    by (auto simp: parse_opts_append split: sum.splits)
  then obtain s1 where
    step: "parse_opt env s (Opt_u a) = Inr s1" and rest: "parse_opts env s1 post = Inr st'"
    by (auto split: sum.splits)
  from step obtain jl u' g' where
    su: "set_user env (j s) a (uid s) (gid s) = Inr (jl, u', g')" and s1: "uid s1 = u'"
    by (auto split: sum.splits)
  have "uid st' = uid s1"
    using parse_opts_maps [OF rest] assms(2) by simp
  with su s1 have "set_user env (j s) a (uid s) (gid s) = Inr (jl, uid st', g')" by simp
  then show ?thesis by blast
qed

lemma collect_options_uid:
  assumes "collect_options env opts = Inr st"
  obtains s0 where "parse_opts env init_state opts = Inr s0" and "uid st = uid s0"
proof -
  from assms obtain s0 s1 where
    loop: "parse_opts env init_state opts = Inr s0" and
    lg: "setup_logging env s0 = Inr s1" and mp: "setup_mapping env s1 = Inr st"
    by (auto simp: collect_options_Inr)
  have "uid st = uid s0"
    by (simp add: same_vars_fields [OF setup_logging_state [OF lg]]
          same_vars_fields [OF setup_mapping_state [OF mp]])
  with loop that show ?thesis by blast
qed

lemma uid_without_user_option:
  assumes "collect_options env opts = Inr st" and "\<forall>x\<in>set opts. \<not> is_user x"
  shows "uid st = 0"
proof -
  from assms(1) obtain s0 where
    loop: "parse_opts env init_state opts = Inr s0" and u: "uid st = uid s0"
    by (rule collect_options_uid)
  show ?thesis
    using parse_opts_maps [OF loop] assms(2) by (simp add: u init_state_def)
qed

lemma uid_of_last_digits:
  assumes "collect_options env (pre @ Opt_u a # post) = Inr st"
    and "\<forall>x\<in>set post. \<not> is_user x"
    and "a \<noteq> []" and "\<forall>c\<in>set a. isdigit c" and "digits_val 10 a < 2 ^ 31"
  shows "uid st = of_nat (digits_val 10 a)"
proof -
  from assms(1) obtain s0 where
    loop: "parse_opts env init_state (pre @ Opt_u a # post) = Inr s0" and u: "uid st = uid s0"
    by (rule collect_options_uid)
  from parse_opts_last_user [OF loop assms(2)] obtain s :: pstate and jl g where
    "set_user env (j s) a (uid s) (gid s) = Inr (jl, uid s0, g)" by blast
  then show ?thesis
    by (simp add: set_user_digits [OF assms(3-5)] u)
qed

lemma uid_of_last_name:
  assumes "collect_options env (pre @ Opt_u a # post) = Inr st"
    and "\<forall>x\<in>set post. \<not> is_user x"
    and "a = [] \<or> snd (strtod a) \<noteq> []"
  shows "\<exists>g. lookup_user env a = Some (uid st, g)"
proof -
  from assms(1) obtain s0 where
    loop: "parse_opts env init_state (pre @ Opt_u a # post) = Inr s0" and u: "uid st = uid s0"
    by (rule collect_options_uid)
  from parse_opts_last_user [OF loop assms(2)] obtain s :: pstate and jl g where
    "set_user env (j s) a (uid s) (gid s) = Inr (jl, uid s0, g)" by blast
  from set_user_by_name [OF assms(3) this] show ?thesis
    by (simp add: u)
qed

lemma unat_of_nat_small: "n < 2 ^ 31 \<Longrightarrow> unat (of_nat n :: 32 word) = n"
  by (simp add: unat_of_nat take_bit_nat_eq_self)

text \<open>The uid maps handed to the jail when the last \<^verbatim>\<open>-m\<close> carries no map.\<close>

lemma default_uidmap_calls:
  assumes "collect_options env opts = Inr st"
    and "uidmap_args opts \<noteq> []" and "last (uidmap_args opts) = None"
    and "unat (uid st) < 2 ^ 31" and "unat (getuid env) < 2 ^ 31"
  shows "Uidmap m \<in> set (j st) \<longleftrightarrow>
           m = dec (unat (uid st)) @ '' '' @ dec (unat (getuid env)) @ '' 1''"
proof -
  let ?M = "dec (unat (uid st)) @ '' '' @ dec (unat (getuid env)) @ '' 1''"
  have mem: "\<And>m. Uidmap m \<in> set (j st) \<longleftrightarrow> Uidmap m \<in> set (filter is_idmap_call (j st))"
    by (simp add: is_idmap_call_def)
  have f: "filter is_idmap_call (j st) =
             Uidmap ?M #
             (if gidmap_args opts \<noteq> [] then
                (if has_cap_setgid env = Inr True then [] else [Namespace_user_disable_setgroups]) @
                [Gidmap (case last (gidmap_args opts) of
                           Some m \<Rightarrow> m
                         | None \<Rightarrow> projr (build_idmap (gid st) (getgid env)))]
              else [])"
    using assms(2-5)
    by (simp only: collect_options_idmap_calls [OF assms(1)])
       (simp add: build_idmap_small)
  show ?thesis
    by (simp only: mem f) (auto split: if_splits)
qed

text \<open>
  C3 as stated fails: \<^verbatim>\<open>-U\<close> alone requests a user namespace and gives no uid map, and
  no uid map is synthesized: \<^verbatim>\<open>minijail_uidmap\<close> is never called.
\<close>

theorem user_namespace_without_map_counterexample:
  "main (plain_env ELFDYNAMIC) [Opt_U] [''prog''] =
     Inr (PreloadExec,
          [Namespace_user, Namespace_pids, Forward_signals, Run ''prog'' [''prog'']], 0)"
  by (simp add: main_def run_defs)

text \<open>
  C3 (as amended). Take an invocation whose options are collected without an error. If
  its last \<^verbatim>\<open>-m\<close> option carries no map, and the target id and the caller's real id
  are below \<open>2^31\<close>, the uid map handed to the jail is the decimal target id, the
  decimal real id of the caller and the count 1, and it is the only uid map of the
  invocation. Without any \<^verbatim>\<open>-m\<close> option no uid map is handed to the jail, whatever
  namespaces are requested. The target id is the one that the last \<^verbatim>\<open>-u\<close> option
  chose: for an argument that is a string of decimal digits of a value below \<open>2^31\<close>
  it is that value, for a name (an argument that \<^verbatim>\<open>strtod\<close> does not read to its end)
  it is the uid that the user database holds for the name, and it is 0 when no \<^verbatim>\<open>-u\<close>
  option was given. So the default map starts with \<^verbatim>\<open>0\<close> without \<^verbatim>\<open>-u\<close>, and with
  the decimal value of the digits after \<^verbatim>\<open>-u\<close> and such digits.
\<close>

theorem default_uidmap:
  assumes "collect_options env opts = Inr st"
  shows "(uidmap_args opts \<noteq> [] \<and> last (uidmap_args opts) = None \<and>
            unat (uid st) < 2 ^ 31 \<and> unat (getuid env) < 2 ^ 31 \<longrightarrow>
            Uidmap (dec (unat (uid st)) @ '' '' @ dec (unat (getuid env)) @ '' 1'') \<in> set (j st) \<and>
            (\<forall>m. Uidmap m \<in> set (j st) \<longrightarrow>
                   m = dec (unat (uid st)) @ '' '' @ dec (unat (getuid env)) @ '' 1'')) \<and>
         (uidmap_args opts = [] \<longrightarrow> (\<forall>m. Uidmap m \<notin> set (j st))) \<and>
         ((\<forall>x\<in>set opts. \<not> is_user x) \<longrightarrow> uid st = 0) \<and>
         (opts = pre @ Opt_u a # post \<and> (\<forall>x\<in>set post. \<not> is_user x) \<longrightarrow>
            (a \<noteq> [] \<and> (\<forall>c\<in>set a. isdigit c) \<and> digits_val 10 a < 2 ^ 31 \<longrightarrow>
               uid st = of_nat (digits_val 10 a)) \<and>
            (a = [] \<or> snd (strtod a) \<noteq> [] \<longrightarrow> (\<exists>g. lookup_user env a = Some (uid st, g)))) \<and>
         (uidmap_args opts \<noteq> [] \<and> last (uidmap_args opts) = None \<and>
            unat (getuid env) < 2 ^ 31 \<longrightarrow>
            ((\<forall>x\<in>set opts. \<not> is_user x) \<longrightarrow>
               (\<forall>m. Uidmap m \<in> set (j st) \<longleftrightarrow>
                      m = ''0'' @ '' '' @ dec (unat (getuid env)) @ '' 1'')) \<and>
            (opts = pre @ Opt_u a # post \<and> (\<forall>x\<in>set post. \<not> is_user x) \<and>
               a \<noteq> [] \<and> (\<forall>c\<in>set a. isdigit c) \<and> digits_val 10 a < 2 ^ 31 \<longrightarrow>
               (\<forall>m. Uidmap m \<in> set (j st) \<longleftrightarrow>
                      m = dec (digits_val 10 a) @ '' '' @ dec (unat (getuid env)) @ '' 1'')))"
proof (intro conjI impI allI)
  assume h: "uidmap_args opts \<noteq> [] \<and> last (uidmap_args opts) = None \<and>
               unat (uid st) < 2 ^ 31 \<and> unat (getuid env) < 2 ^ 31"
  then show "Uidmap (dec (unat (uid st)) @ '' '' @ dec (unat (getuid env)) @ '' 1'') \<in> set (j st)"
    by (simp add: default_uidmap_calls [OF assms])
next
  fix m
  assume h: "uidmap_args opts \<noteq> [] \<and> last (uidmap_args opts) = None \<and>
               unat (uid st) < 2 ^ 31 \<and> unat (getuid env) < 2 ^ 31"
    and "Uidmap m \<in> set (j st)"
  then show "m = dec (unat (uid st)) @ '' '' @ dec (unat (getuid env)) @ '' 1''"
    by (simp add: default_uidmap_calls [OF assms])
next
  fix m
  have mem: "Uidmap m \<in> set (j st) \<longleftrightarrow> Uidmap m \<in> set (filter is_idmap_call (j st))"
    by (simp add: is_idmap_call_def)
  assume "uidmap_args opts = []"
  then show "Uidmap m \<notin> set (j st)"
    by (simp only: mem collect_options_idmap_calls [OF assms]) (simp split: if_splits)
next
  assume "\<forall>x\<in>set opts. \<not> is_user x"
  then show "uid st = 0" by (rule uid_without_user_option [OF assms])
next
  assume "opts = pre @ Opt_u a # post \<and> (\<forall>x\<in>set post. \<not> is_user x)"
    and "a \<noteq> [] \<and> (\<forall>c\<in>set a. isdigit c) \<and> digits_val 10 a < 2 ^ 31"
  then show "uid st = of_nat (digits_val 10 a)"
    using assms by (intro uid_of_last_digits [of env pre a post]) simp_all
next
  assume "opts = pre @ Opt_u a # post \<and> (\<forall>x\<in>set post. \<not> is_user x)"
    and "a = [] \<or> snd (strtod a) \<noteq> []"
  then show "\<exists>g. lookup_user env a = Some (uid st, g)"
    using assms by (intro uid_of_last_name [of env pre a post]) simp_all
next
  fix m
  assume h: "uidmap_args opts \<noteq> [] \<and> last (uidmap_args opts) = None \<and> unat (getuid env) < 2 ^ 31"
    and n: "\<forall>x\<in>set opts. \<not> is_user x"
  have u: "uid st = 0" using n by (rule uid_without_user_option [OF assms])
  have "Uidmap m \<in> set (j st) \<longleftrightarrow>
          m = dec (unat (uid st)) @ '' '' @ dec (unat (getuid env)) @ '' 1''"
    using h by (intro default_uidmap_calls [OF assms]) (simp_all add: u)
  then show "Uidmap m \<in> set (j st) \<longleftrightarrow> m = ''0'' @ '' '' @ dec (unat (getuid env)) @ '' 1''"
    by (simp add: u dec.simps)
next
  fix m
  assume h: "uidmap_args opts \<noteq> [] \<and> last (uidmap_args opts) = None \<and> unat (getuid env) < 2 ^ 31"
    and d: "opts = pre @ Opt_u a # post \<and> (\<forall>x\<in>set post. \<not> is_user x) \<and>
               a \<noteq> [] \<and> (\<forall>c\<in>set a. isdigit c) \<and> digits_val 10 a < 2 ^ 31"
  have u: "uid st = of_nat (digits_val 10 a)"
    using assms d by (intro uid_of_last_digits [of env pre a post]) simp_all
  have un: "unat (uid st) = digits_val 10 a"
    using d by (simp add: u unat_of_nat_small)
  have "Uidmap m \<in> set (j st) \<longleftrightarrow>
          m = dec (unat (uid st)) @ '' '' @ dec (unat (getuid env)) @ '' 1''"
    using h d by (intro default_uidmap_calls [OF assms]) (simp_all add: un)
  then show "Uidmap m \<in> set (j st) \<longleftrightarrow>
               m = dec (digits_val 10 a) @ '' '' @ dec (unat (getuid env)) @ '' 1''"
    by (simp only: un)
qed

lemma set_user_5: "set_user env jl ''5'' u g = Inr (jl @ [Change_uid 5], 5, g)"
  using set_user_digits [of "''5''" env jl u g] by (simp add: ctype_defs)

lemma collect_bare_uidmap_option:
  "collect_options (plain_env ELFDYNAMIC) [Opt_m None] =
     Inr (init_state\<lparr>set_uidmap := True,
            j := [Namespace_user, Namespace_pids, Uidmap ''0 1000 1'']\<rparr>)"
  by (simp add: stage_defs set_ugid_mapping_def build_idmap_def
        printf_d_def dec.simps IDMAP_LEN_def plain_env_fields)

lemma collect_user_and_bare_uidmap_option:
  "collect_options (plain_env ELFDYNAMIC) [Opt_u ''5'', Opt_m (Some ''0 0 1''), Opt_m None] =
     Inr (init_state\<lparr>uid := 5, set_uidmap := True,
            j := [Change_uid 5, Namespace_user, Namespace_pids, Uidmap ''5 1000 1'']\<rparr>)"
  by (simp add: stage_defs set_user_5 set_ugid_mapping_def build_idmap_def
        printf_d_def dec.simps IDMAP_LEN_def plain_env_fields)

theorem default_uidmap_witness:
  "collect_options (plain_env ELFDYNAMIC) [Opt_m None] =
     Inr (init_state\<lparr>set_uidmap := True,
            j := [Namespace_user, Namespace_pids, Uidmap ''0 1000 1'']\<rparr>) \<and>
   uidmap_args [Opt_m None] \<noteq> [] \<and> last (uidmap_args [Opt_m None]) = None \<and>
   unat (getuid (plain_env ELFDYNAMIC)) < 2 ^ 31 \<and>
   list_all (\<lambda>x. \<not> is_user x) [Opt_m None] \<and>
   Uidmap (dec 0 @ '' '' @ dec 1000 @ '' 1'') \<in>
     set [Namespace_user, Namespace_pids, Uidmap ''0 1000 1''] \<and>
   collect_options (plain_env ELFDYNAMIC) [Opt_u ''5'', Opt_m (Some ''0 0 1''), Opt_m None] =
     Inr (init_state\<lparr>uid := 5, set_uidmap := True,
            j := [Change_uid 5, Namespace_user, Namespace_pids, Uidmap ''5 1000 1'']\<rparr>) \<and>
   [Opt_u ''5'', Opt_m (Some ''0 0 1''), Opt_m None] =
     [] @ Opt_u ''5'' # [Opt_m (Some ''0 0 1''), Opt_m None] \<and>
   list_all (\<lambda>x. \<not> is_user x) [Opt_m (Some ''0 0 1''), Opt_m None] \<and>
   ''5'' \<noteq> [] \<and> list_all isdigit ''5'' \<and> digits_val 10 ''5'' < 2 ^ 31 \<and>
   uidmap_args [Opt_u ''5'', Opt_m (Some ''0 0 1''), Opt_m None] \<noteq> [] \<and>
   last (uidmap_args [Opt_u ''5'', Opt_m (Some ''0 0 1''), Opt_m None]) = None \<and>
   uid (init_state\<lparr>uid := 5, set_uidmap := True,
          j := [Change_uid 5, Namespace_user, Namespace_pids, Uidmap ''5 1000 1'']\<rparr>) =
     of_nat (digits_val 10 ''5'') \<and>
   list_all (\<lambda>c. c = Uidmap ''5 1000 1'' \<or> (case c of Uidmap m \<Rightarrow> False | _ \<Rightarrow> True))
     [Change_uid 5, Namespace_user, Namespace_pids, Uidmap ''5 1000 1'']"
proof -
  let ?st = "init_state\<lparr>set_uidmap := True,
               j := [Namespace_user, Namespace_pids, Uidmap ''0 1000 1'']\<rparr>"
  let ?o5 = "[Opt_u ''5'', Opt_m (Some ''0 0 1''), Opt_m None]"
  let ?s5 = "init_state\<lparr>uid := 5, set_uidmap := True,
               j := [Change_uid 5, Namespace_user, Namespace_pids, Uidmap ''5 1000 1'']\<rparr>"
  have u: "uid ?st = 0" "j ?st = [Namespace_user, Namespace_pids, Uidmap ''0 1000 1'']"
    by (simp_all add: init_state_def)
  have g: "getuid (plain_env ELFDYNAMIC) = 1000"
    by (simp add: plain_env_fields)
  have h: "uidmap_args [Opt_m None] \<noteq> [] \<and> last (uidmap_args [Opt_m None]) = None \<and>
    unat (uid ?st) < 2 ^ 31 \<and> unat (getuid (plain_env ELFDYNAMIC)) < 2 ^ 31"
    by (simp add: u(1) g)
  have nu: "list_all (\<lambda>x. \<not> is_user x) [Opt_m None]" by (simp add: is_user_def)
  from default_uidmap [OF collect_bare_uidmap_option, THEN conjunct1, rule_format, OF h]
  have "Uidmap (dec (unat (uid ?st)) @ '' '' @ dec (unat (getuid (plain_env ELFDYNAMIC))) @ '' 1'')
          \<in> set (j ?st)"
    by (rule conjunct1)
  then have a: "Uidmap (dec 0 @ '' '' @ dec 1000 @ '' 1'') \<in>
               set [Namespace_user, Namespace_pids, Uidmap ''0 1000 1'']"
    by (simp only: u g) simp
  note inst5 = default_uidmap [OF collect_user_and_bare_uidmap_option,
                where pre = "[]" and a = "''5''" and post = "[Opt_m (Some ''0 0 1''), Opt_m None]"]
  have sp: "?o5 = [] @ Opt_u ''5'' # [Opt_m (Some ''0 0 1''), Opt_m None]" by simp
  have np: "\<forall>x\<in>set [Opt_m (Some ''0 0 1''), Opt_m None]. \<not> is_user x" by (simp add: is_user_def)
  have dg: "''5'' \<noteq> [] \<and> (\<forall>c\<in>set ''5''. isdigit c) \<and> digits_val 10 ''5'' < 2 ^ 31"
    by (simp add: ctype_defs)
  have ma: "uidmap_args ?o5 \<noteq> [] \<and> last (uidmap_args ?o5) = None \<and>
              unat (getuid (plain_env ELFDYNAMIC)) < 2 ^ 31"
    by (simp add: g)
  have b: "uid ?s5 = of_nat (digits_val 10 ''5'')"
    using inst5 sp np dg by blast
  have c: "\<forall>m. Uidmap m \<in> set (j ?s5) \<longleftrightarrow>
                 m = dec (digits_val 10 ''5'') @ '' '' @ dec (unat (getuid (plain_env ELFDYNAMIC))) @ '' 1''"
    using inst5 sp np dg ma by blast
  have d5: "dec (digits_val 10 ''5'') @ '' '' @ dec (unat (getuid (plain_env ELFDYNAMIC))) @ '' 1'' =
              ''5 1000 1''"
    by (simp add: g ctype_defs dec.simps)
  have j5: "j ?s5 = [Change_uid 5, Namespace_user, Namespace_pids, Uidmap ''5 1000 1'']"
    by simp
  have e: "list_all (\<lambda>c. c = Uidmap ''5 1000 1'' \<or> (case c of Uidmap m \<Rightarrow> False | _ \<Rightarrow> True))
             [Change_uid 5, Namespace_user, Namespace_pids, Uidmap ''5 1000 1'']"
    using c unfolding d5 j5 by simp
  have l5: "list_all (\<lambda>x. \<not> is_user x) [Opt_m (Some ''0 0 1''), Opt_m None]"
    "list_all isdigit ''5''"
    using np dg by (simp_all add: list_all_iff)
  show ?thesis
    using collect_bare_uidmap_option h nu a collect_user_and_bare_uidmap_option sp l5 dg ma b e
    by blast
qed

subsection \<open>Capability and securebits masks\<close>

text \<open>
  C10. An empty argument of \<^verbatim>\<open>-c\<close> or \<^verbatim>\<open>-B\<close> is accepted and gives the mask 0; for
  \<^verbatim>\<open>-c\<close> the flag that records the capability request is set all the same, so that a
  static target is then refused without \<^verbatim>\<open>--ambient\<close>. Either handler fails exactly
  when \<^verbatim>\<open>strtoull\<close> leaves a character unread.
\<close>

theorem empty_mask_is_zero:
  "use_caps jl [] = Inr (jl @ [Use_caps 0]) \<and>
   skip_securebits jl [] = Inr (jl @ [Skip_setting_securebits 0]) \<and>
   parse_opt env st (Opt_c []) = Inr (st\<lparr>caps := True, j := j st @ [Use_caps 0]\<rparr>) \<and>
   parse_args (plain_env ELFSTATIC) [Opt_c []] [''prog''] = Inl Static_caps_without_ambient \<and>
   use_caps jl ''1g'' = Inl (Invalid_cap_set ''1g'') \<and>
   (use_caps jl arg = Inl (Invalid_cap_set arg)) = (snd (strtoull arg 16) \<noteq> []) \<and>
   (skip_securebits jl arg = Inl (Invalid_securebit_mask arg)) = (snd (strtoull arg 16) \<noteq> []) \<and>
   (\<exists>c. use_caps jl arg = Inr (jl @ [Use_caps c])) = (snd (strtoull arg 16) = []) \<and>
   (\<exists>c. skip_securebits jl arg = Inr (jl @ [Skip_setting_securebits c])) =
     (snd (strtoull arg 16) = [])"
proof -
  have a: "use_caps jl [] = Inr (jl @ [Use_caps 0])"
    by (simp add: use_caps_def strtoull_empty)
  have b: "skip_securebits jl [] = Inr (jl @ [Skip_setting_securebits 0])"
    by (simp add: skip_securebits_def strtoull_empty)
  have c: "parse_opt env st (Opt_c []) = Inr (st\<lparr>caps := True, j := j st @ [Use_caps 0]\<rparr>)"
    by (simp add: use_caps_def strtoull_empty)
  have d: "parse_args (plain_env ELFSTATIC) [Opt_c []] [''prog''] = Inl Static_caps_without_ambient"
    by (simp add: run_defs use_caps_def strtoull_empty)
  have x: "use_caps jl ''1g'' = Inl (Invalid_cap_set ''1g'')"
    by (simp add: use_caps_def strtoull_defs)
  have e: "(use_caps jl arg = Inl (Invalid_cap_set arg)) = (snd (strtoull arg 16) \<noteq> [])"
    "(\<exists>c. use_caps jl arg = Inr (jl @ [Use_caps c])) = (snd (strtoull arg 16) = [])"
    by (auto simp: use_caps_def split: prod.splits)
  have f: "(skip_securebits jl arg = Inl (Invalid_securebit_mask arg)) = (snd (strtoull arg 16) \<noteq> [])"
    "(\<exists>c. skip_securebits jl arg = Inr (jl @ [Skip_setting_securebits c])) =
       (snd (strtoull arg 16) = [])"
    by (auto simp: skip_securebits_def split: prod.splits)
  show ?thesis by (intro conjI a b c d x e f)
qed

end
